theory Spec2Isabelle
  imports Complex_Main "HOL-Library.Word"
begin

section \<open>The PostgREST uploader of IoTaWatt (postgrest\_uploader.cpp)\<close>

text \<open>
  A shallow embedding of \<^verbatim>\<open>Firmware/IotaWatt/uploaders/postgrest_uploader.h\<close> and of the
  implementation that follows it in the same file.  Unsigned 32-bit quantities
  (\<^verbatim>\<open>uint32_t\<close>) are \<open>32 word\<close>, so that \<open>+\<close>, \<open>-\<close> and \<open>*\<close> wrap around as in C.
  Collaborators that live outside the file (the log store, the JSON library, the clock,
  the C library's number formatting, the calendar helpers) are fields of an environment
  record \<open>env\<close> and stay arbitrary in every theorem unless a theorem says otherwise.
\<close>

subsection \<open>C library: character classes and \<^verbatim>\<open>sscanf\<close>\<close>

definition isspace :: "char \<Rightarrow> bool" where
  "isspace c \<longleftrightarrow> c \<in> set [CHR '' '', CHR 0x09, CHR 0x0A, CHR 0x0B, CHR 0x0C, CHR 0x0D]"

definition isdigit :: "char \<Rightarrow> bool" where
  "isdigit c \<longleftrightarrow> 48 \<le> (of_char c :: nat) \<and> (of_char c :: nat) \<le> 57"

definition digit_val :: "char \<Rightarrow> int" where
  "digit_val c = int (of_char c) - 48"

text \<open>The value of a run of decimal digits, most significant digit first.\<close>

definition dec :: "string \<Rightarrow> int" where
  "dec ds = foldl (\<lambda>a c. 10 * a + digit_val c) 0 ds"

text \<open>
  The directives of a \<^verbatim>\<open>scanf\<close> format, as far as this file uses them: \<^verbatim>\<open>%d\<close>,
  \<^verbatim>\<open>%c\<close>, white space, and ordinary characters.
\<close>

datatype directive = ConvD | ConvC | White | Lit char

fun parse_format :: "string \<Rightarrow> directive list" where
  "parse_format [] = []"
| "parse_format [c] = (if isspace c then [White] else [Lit c])"
| "parse_format (c # d # cs) =
     (if c = CHR ''%'' then
        (if d = CHR ''d'' then ConvD # parse_format cs
         else if d = CHR ''c'' then ConvC # parse_format cs
         else Lit d # parse_format cs)
      else if isspace c then White # parse_format (d # cs)
      else Lit c # parse_format (d # cs))"

text \<open>
  The number that \<^verbatim>\<open>%d\<close> reads is stored in a C \<^verbatim>\<open>int\<close> of 32 bits.  A number in
  the range of \<^verbatim>\<open>int\<close> is stored as it is.  For a number beyond the range the C standard
  leaves the stored value open, and the libraries differ (some saturate, some truncate);
  that value is given by the parameter \<open>ovf\<close>, which stays arbitrary in the theorems.
\<close>

type_synonym overflow_fn = "int \<Rightarrow> int"

definition store_int :: "overflow_fn \<Rightarrow> int \<Rightarrow> int" where
  "store_int ovf n = (if - 2147483648 \<le> n \<and> n \<le> 2147483647 then n else ovf n)"

text \<open>
  \<^verbatim>\<open>%d\<close>: skip white space, read an optional sign and at least one decimal digit.
  The result is the stored number and the rest of the input; \<open>None\<close> is a matching
  failure.
\<close>

definition scan_d :: "overflow_fn \<Rightarrow> string \<Rightarrow> (int \<times> string) option" where
  "scan_d ovf s =
     (let s1 = dropWhile isspace s;
          neg = (case s1 of [] \<Rightarrow> False | c # _ \<Rightarrow> c = CHR ''-'');
          s2 = (case s1 of [] \<Rightarrow> []
                | c # r \<Rightarrow> if c = CHR ''-'' \<or> c = CHR ''+'' then r else s1);
          ds = takeWhile isdigit s2
      in if ds = [] then None
         else Some (store_int ovf (if neg then - dec ds else dec ds), dropWhile isdigit s2))"

datatype scanned = IntV int | ChrV char

text \<open>
  The scan stops at the first directive that fails; the values converted so far are
  the result, and their number is what \<^verbatim>\<open>sscanf\<close> returns.  (C returns \<^verbatim>\<open>EOF\<close>
  instead of 0 when the input ends before the first conversion; the callers here only
  compare the count with 6, 8 and 9, so both are the empty list.)
\<close>

fun scan :: "overflow_fn \<Rightarrow> directive list \<Rightarrow> string \<Rightarrow> scanned list" where
  "scan ovf [] s = []"
| "scan ovf (ConvD # fs) s =
     (case scan_d ovf s of None \<Rightarrow> [] | Some (n, r) \<Rightarrow> IntV n # scan ovf fs r)"
| "scan ovf (ConvC # fs) s =
     (case s of [] \<Rightarrow> [] | c # r \<Rightarrow> ChrV c # scan ovf fs r)"
| "scan ovf (White # fs) s = scan ovf fs (dropWhile isspace s)"
| "scan ovf (Lit c # fs) s =
     (case s of [] \<Rightarrow> [] | x # r \<Rightarrow> if x = c then scan ovf fs r else [])"

definition sscanf :: "overflow_fn \<Rightarrow> string \<Rightarrow> string \<Rightarrow> scanned list" where
  "sscanf ovf str fmt = scan ovf (parse_format fmt) str"

definition int_at :: "scanned list \<Rightarrow> nat \<Rightarrow> int" where
  "int_at r i = (case r ! i of IntV n \<Rightarrow> n | ChrV _ \<Rightarrow> 0)"

definition chr_at :: "scanned list \<Rightarrow> nat \<Rightarrow> char" where
  "chr_at r i = (case r ! i of ChrV c \<Rightarrow> c | IntV _ \<Rightarrow> CHR 0x00)"

subsection \<open>\<^verbatim>\<open>parseTimestamp\<close>\<close>

text \<open>
  \<^verbatim>\<open>Unixtime(year, month, day, hour, minute, second)\<close> is declared in \<^verbatim>\<open>IotaWatt.h\<close>
  and is a parameter here.  The offset is computed in \<open>int\<close> and converted with
  \<open>word_of_int\<close>, which is the value the 32-bit two's complement arithmetic of the
  source produces; the subtraction wraps modulo \<open>2^32\<close>.  \<open>int_at\<close> and \<open>chr_at\<close> are
  read only at positions below the count just checked.  \<open>ovf\<close> is the library's choice
  for a number beyond the range of \<^verbatim>\<open>int\<close>.
\<close>

type_synonym unixtime_fn = "int \<Rightarrow> int \<Rightarrow> int \<Rightarrow> int \<Rightarrow> int \<Rightarrow> int \<Rightarrow> 32 word"

definition fields_time :: "unixtime_fn \<Rightarrow> scanned list \<Rightarrow> 32 word" where
  "fields_time Unixtime r =
     Unixtime (int_at r 0) (int_at r 1) (int_at r 2) (int_at r 3) (int_at r 4) (int_at r 5)"

definition parseTimestamp :: "overflow_fn \<Rightarrow> unixtime_fn \<Rightarrow> string \<Rightarrow> 32 word" where
  "parseTimestamp ovf Unixtime timestampStr =
     (let r1 = sscanf ovf timestampStr ''%d-%d-%d %d:%d:%d%c%d:%d'' in
      if length r1 = 9 then
        (let tzOffsetSeconds = int_at r1 7 * 3600 + int_at r1 8 * 60;
             tzOffsetSeconds = (if chr_at r1 6 = CHR ''-'' then - tzOffsetSeconds
                                else tzOffsetSeconds);
             utcTime = fields_time Unixtime r1
         in utcTime - word_of_int tzOffsetSeconds)
      else
      let r2 = sscanf ovf timestampStr ''%d-%d-%d %d:%d:%d%c%d'' in
      if length r2 = 8 then
        (let tzOffsetSeconds = int_at r2 7 * 3600;
             tzOffsetSeconds = (if chr_at r2 6 = CHR ''-'' then - tzOffsetSeconds
                                else tzOffsetSeconds);
             utcTime = fields_time Unixtime r2
         in utcTime - word_of_int tzOffsetSeconds)
      else
      let r3 = sscanf ovf timestampStr ''%d-%d-%dT%d:%d:%dZ'' in
      if length r3 = 6 then fields_time Unixtime r3
      else
      let r4 = sscanf ovf timestampStr ''%d-%d-%dT%d:%d:%d'' in
      if length r4 = 6 then fields_time Unixtime r4
      else
      let r5 = sscanf ovf timestampStr ''%d-%d-%d %d:%d:%d'' in
      if length r5 = 6 then fields_time Unixtime r5
      else 0)"

subsection \<open>C library: printing a number\<close>

definition digit_char :: "nat \<Rightarrow> char" where
  "digit_char d = char_of (48 + d)"

function show_nat :: "nat \<Rightarrow> string" where
  "show_nat n = (if n < 10 then [digit_char n] else show_nat (n div 10) @ [digit_char (n mod 10)])"
  by pat_completeness auto
termination
  by (relation "measure id") auto

declare show_nat.simps [simp del]

definition show_int :: "int \<Rightarrow> string" where
  "show_int i = (if i < 0 then CHR ''-'' # show_nat (nat (- i)) else show_nat (nat i))"

subsection \<open>Data model\<close>

text \<open>
  A C \<^verbatim>\<open>double\<close> is needed only for three things: the subtraction of two
  \<^verbatim>\<open>logHours\<close>, the comparison of the difference with 0, and the test
  \<^verbatim>\<open>value == value\<close>, which is false exactly for the not-a-number sentinel.  It is
  modelled as a real number or \<open>NaN\<close>; rounding and infinities are left out.
\<close>

datatype double = NaN | Fin real

fun double_sub :: "double \<Rightarrow> double \<Rightarrow> double" where
  "double_sub (Fin a) (Fin b) = Fin (a - b)"
| "double_sub _ _ = NaN"

fun double_eq :: "double \<Rightarrow> double \<Rightarrow> bool" where
  "double_eq (Fin a) (Fin b) = (a = b)"
| "double_eq _ _ = False"

record IotaLogRecord =
  UNIXtime :: "32 word"
  logHours :: double
  accum1 :: "double list"

text \<open>
  A script of the output list: \<^verbatim>\<open>name()\<close>, \<^verbatim>\<open>getUnitsEnum()\<close>, \<^verbatim>\<open>precision()\<close>
  and \<^verbatim>\<open>run(old, new)\<close>.  The linked list \<^verbatim>\<open>_outputs\<close> is a HOL list.
\<close>

record Script =
  name :: string
  getUnitsEnum :: nat
  precision :: nat
  run :: "IotaLogRecord \<Rightarrow> IotaLogRecord \<Rightarrow> double"

datatype states = query_s | checkQuery_s | write_s | checkWrite_s | delay_s | stopped_s

record asyncHTTPrequest =
  readyState :: nat
  responseHTTPcode :: int
  responseText :: string

datatype http_call =
    HTTP_GET string states
  | HTTP_POST string string string states

text \<open>
  The uploader object: the members of \<^verbatim>\<open>postgrest_uploader\<close> and those of its base
  class that the file reads or writes.  \<^verbatim>\<open>oldRecord\<close> and \<^verbatim>\<open>newRecord\<close> are
  allocated and released together on every path of the file, so the pair is one optional
  value, \<open>(old, new)\<close>.  \<open>reqData\<close> is the request buffer; \<^verbatim>\<open>available()\<close> is its length.
  \<open>unit_active\<close> has \<^verbatim>\<open>unitsCount\<close> entries.  \<open>issued\<close> is the list of requests handed to
  the transport, newest last.  \<^verbatim>\<open>_interval\<close> and \<^verbatim>\<open>_bulkSend\<close> are declared in the base
  class; they carry the unsigned 32-bit values to which the arithmetic of lines 313 and
  343 converts them.
\<close>

record uploader =
  table :: string
  deviceName_cfg :: "string option"
  jwtToken :: "string option"
  schema :: "string option"
  unit_active :: "bool list"
  CSVheader :: string
  outputs :: "Script list"
  state :: states
  stop :: bool
  lastSent :: "32 word"
  lastPost :: "32 word"
  uploadStartDate :: "32 word"
  interval :: "32 word"
  bulkSend :: "32 word"
  request :: "asyncHTTPrequest option"
  statusMessage :: "string option"
  records :: "(IotaLogRecord \<times> IotaLogRecord) option"
  reqData :: string
  delayResumeTime :: "32 word"
  delayResumeState :: states
  issued :: "http_call list"

text \<open>
  The collaborators outside the file.  \<open>int_overflow\<close> is the parameter \<open>ovf\<close> of
  \<^verbatim>\<open>sscanf\<close>.  \<open>parseArray\<close> is the JSON library: \<open>None\<close> when
  the text is not an array, otherwise the elements, each an object given by its
  key/value pairs.  \<open>datef\<close> is \<^verbatim>\<open>datef(t, "YYYY-MM-DDThh:mm:ssZ")\<close>.  \<open>printf_f\<close> is the
  C library's \<^verbatim>\<open>%.*f\<close>.  \<open>budget\<close> is the number of iterations of the assembly loop
  that start before \<^verbatim>\<open>micros()\<close> passes \<^verbatim>\<open>bingoTime\<close>.  \<open>newIotaLogRecord\<close> is a
  freshly constructed log record.  The log does not change during one step.
\<close>

record env =
  int_overflow :: overflow_fn
  Unixtime :: unixtime_fn
  datef :: "32 word \<Rightarrow> string"
  parseArray :: "string \<Rightarrow> (string \<times> string) list list option"
  firstKey :: "32 word"
  lastKey :: "32 word"
  readKey :: "IotaLogRecord \<Rightarrow> IotaLogRecord"
  newIotaLogRecord :: IotaLogRecord
  UTCtime :: "32 word"
  WiFi_isConnected :: bool
  uploaderBufferLimit :: nat
  deviceName :: string
  printf_f :: "nat \<Rightarrow> double \<Rightarrow> string"
  budget :: nat

text \<open>
  What a handler does: it returns a delay and leaves the object in a new state, or the
  program stops on a null pointer or a division by zero.
\<close>

datatype outcome = Return "32 word" uploader | Crash

subsection \<open>Helpers of the base class\<close>

text \<open>
  Modelled from the spec: \<^verbatim>\<open>HTTPGet\<close>, \<^verbatim>\<open>HTTPPost\<close>, \<^verbatim>\<open>delay\<close> and \<^verbatim>\<open>stop\<close> are
  members of the base class \<^verbatim>\<open>Uploader\<close>, which is not part of the file.  The spec says:
  issue a GET with path and query and a completion tag; issue a POST with path, body,
  content type and a completion tag, the buffer never being carried across send
  attempts; schedule a retry after a fixed backoff; on stop, release the record cursors
  and halt.
\<close>

text \<open>Modelled from the spec: \<^verbatim>\<open>Uploader::HTTPGet\<close>, issue a GET with path and query and a completion tag.\<close>

definition HTTPGet :: "string \<Rightarrow> states \<Rightarrow> uploader \<Rightarrow> uploader" where
  "HTTPGet endpoint completion u =
     u\<lparr>issued := issued u @ [HTTP_GET endpoint completion], state := completion\<rparr>"

text \<open>
  Modelled from the spec: \<^verbatim>\<open>Uploader::HTTPPost\<close>, issue a POST with path, body, content
  type and a completion tag; the body is the buffer, which is not carried across sends.
\<close>

definition HTTPPost :: "string \<Rightarrow> states \<Rightarrow> string \<Rightarrow> uploader \<Rightarrow> uploader" where
  "HTTPPost endpoint completion contentType u =
     u\<lparr>issued := issued u @ [HTTP_POST endpoint (reqData u) contentType completion],
       reqData := [], state := completion\<rparr>"

text \<open>Modelled from the spec: \<^verbatim>\<open>Uploader::delay\<close>, schedule a retry after a fixed backoff.\<close>

definition delay :: "env \<Rightarrow> 32 word \<Rightarrow> states \<Rightarrow> uploader \<Rightarrow> uploader" where
  "delay e seconds resume u =
     u\<lparr>delayResumeTime := UTCtime e + seconds, delayResumeState := resume, state := delay_s\<rparr>"

text \<open>
  Modelled from the spec: \<^verbatim>\<open>Uploader::stop\<close>, release the record cursors and halt.
\<close>

definition stop_uploader :: "uploader \<Rightarrow> uploader" where
  "stop_uploader u = u\<lparr>records := None, state := stopped_s\<rparr>"

subsection \<open>\<^verbatim>\<open>resolveDeviceName\<close>\<close>

fun replace_all :: "string \<Rightarrow> string \<Rightarrow> string \<Rightarrow> string" where
  "replace_all pat rep [] = []"
| "replace_all pat rep (c # cs) =
     (if pat \<noteq> [] \<and> take (length pat) (c # cs) = pat
      then rep @ replace_all pat rep (drop (length pat) (c # cs))
      else c # replace_all pat rep cs)"

definition resolveDeviceName :: "env \<Rightarrow> uploader \<Rightarrow> string" where
  "resolveDeviceName e u =
     (case deviceName_cfg u of
        None \<Rightarrow> deviceName e
      | Some result \<Rightarrow> replace_all ''$device'' (deviceName e) result)"

definition endpoint_path :: "uploader \<Rightarrow> string" where
  "endpoint_path u =
     ''/'' @ (case schema u of
               None \<Rightarrow> []
             | Some sc \<Rightarrow> if sc \<noteq> ''public'' then sc @ ''.'' else []) @ table u"

subsection \<open>\<^verbatim>\<open>handle_query_s\<close> and \<^verbatim>\<open>handle_checkQuery_s\<close>\<close>

definition handle_query_s :: "env \<Rightarrow> uploader \<Rightarrow> outcome" where
  "handle_query_s e u0 =
     (let u = u0\<lparr>lastSent := 0\<rparr>;
          endpoint = endpoint_path u @ ''?select=timestamp&device=eq.'' @ resolveDeviceName e u
                     @ ''&order=timestamp.desc&limit=1''
      in if \<not> WiFi_isConnected e then Return (UTCtime e + 1) u
         else Return 1 (HTTPGet endpoint checkQuery_s u))"

definition failure_message :: "string \<Rightarrow> int \<Rightarrow> string \<Rightarrow> string" where
  "failure_message what httpCode body =
     (if httpCode < 0 then take 49 (what @ '' failed, code '' @ show_int httpCode)
      else take (length body + 49)
             (what @ '' failed, code '' @ show_int httpCode @ '', response: '' @ body))"

text \<open>The watermark a successful query response carries, if any (lines 292 to 308).\<close>

definition response_watermark :: "env \<Rightarrow> string \<Rightarrow> 32 word option" where
  "response_watermark e text =
     (case parseArray e text of
        None \<Rightarrow> None
      | Some [] \<Rightarrow> None
      | Some (lastRecord # _) \<Rightarrow>
          (case map_of lastRecord ''timestamp'' of
             None \<Rightarrow> None
           | Some timestampStr \<Rightarrow>
               (let timestamp = parseTimestamp (int_overflow e) (Unixtime e) timestampStr
                in if timestamp > 0 then Some timestamp else None)))"

text \<open>
  Line 313 divides by \<^verbatim>\<open>_interval\<close>; with an interval of 0 the program stops there.
  The log line of lines 315 to 318 has no effect on the state and is left out.
\<close>

definition handle_checkQuery_s :: "env \<Rightarrow> uploader \<Rightarrow> outcome" where
  "handle_checkQuery_s e u0 =
     (case request u0 of
        None \<Rightarrow> Return 10 u0
      | Some rq \<Rightarrow>
          if readyState rq \<noteq> 4 then Return 10 u0
          else
            let u = u0\<lparr>statusMessage := None\<rparr>;
                httpCode = responseHTTPcode rq
            in if httpCode \<noteq> 200 then
                 Return 15
                   (delay e 5 query_s
                      (u\<lparr>statusMessage := Some (failure_message ''Query'' httpCode (responseText rq)),
                         request := None\<rparr>))
               else
                 let u = (case response_watermark e (responseText rq) of
                            None \<Rightarrow> u
                          | Some timestamp \<Rightarrow> u\<lparr>lastSent := timestamp\<rparr>);
                     u = u\<lparr>lastSent := max (lastSent u) (uploadStartDate u)\<rparr>;
                     u = u\<lparr>lastSent := max (lastSent u) (firstKey e)\<rparr>
                 in if interval u = 0 then Crash
                    else Return 1
                           (u\<lparr>lastSent := lastSent u - lastSent u mod interval u,
                              request := None, state := write_s\<rparr>))"

subsection \<open>Row assembly (lines 399 to 477 of \<^verbatim>\<open>handle_write_s\<close>)\<close>

text \<open>
  \<^verbatim>\<open>while (unitIndex < limit) if (_unit_active[unitIndex++]) reqData.print(",NULL");\<close>
  The buffer and the unit cursor are passed through.  The array has \<^verbatim>\<open>unitsCount\<close>
  entries; an index beyond it reads outside the array in C, and the theorems below
  assume that every script's unit is below \<^verbatim>\<open>unitsCount\<close>.
\<close>

function null_fill :: "bool list \<Rightarrow> nat \<Rightarrow> string \<times> nat \<Rightarrow> string \<times> nat" where
  "null_fill act limit (buf, unitIndex) =
     (if unitIndex < limit
      then null_fill act limit
             (if act ! unitIndex then buf @ '',NULL'' else buf, Suc unitIndex)
      else (buf, unitIndex))"
  by pat_completeness auto
termination
  by (relation "measure (\<lambda>(act, limit, buf, unitIndex). limit - unitIndex)") auto

declare null_fill.simps [simp del]

text \<open>\<^verbatim>\<open>reqData.printf("\n%s,%s,%s", timestampStr, resolveDeviceName(), sensor)\<close>\<close>

definition row_start :: "string \<Rightarrow> string \<Rightarrow> string \<Rightarrow> string" where
  "row_start timestampStr device sensor =
     [CHR 0x0A] @ timestampStr @ '','' @ device @ '','' @ sensor"

text \<open>
  The loop over the scripts (lines 413 to 466).  The loop state is the buffer, the
  sensor of the row being built and the unit cursor.
\<close>

fun script_loop ::
  "env \<Rightarrow> bool list \<Rightarrow> string \<Rightarrow> string \<Rightarrow> IotaLogRecord \<Rightarrow> IotaLogRecord \<Rightarrow> Script list
     \<Rightarrow> string \<times> string \<times> nat \<Rightarrow> string \<times> string \<times> nat" where
  "script_loop e act device timestampStr old new [] st = st"
| "script_loop e act device timestampStr old new (script # rest) (buf, sensor, unitIndex) =
     (let val = run script old new in
      if double_eq val val then
        (let (buf, sensor, unitIndex) =
               (if sensor \<noteq> name script then
                  (let (buf, unitIndex) = null_fill act (length act) (buf, unitIndex)
                   in (buf @ row_start timestampStr device (name script), name script, 0))
                else (buf, sensor, unitIndex));
             (buf, unitIndex) = null_fill act (getUnitsEnum script) (buf, unitIndex);
             (buf, unitIndex) =
               (if unitIndex = getUnitsEnum script
                then (buf @ '','' @ printf_f e (precision script) val, Suc unitIndex)
                else (buf, unitIndex))
         in script_loop e act device timestampStr old new rest (buf, sensor, unitIndex))
      else script_loop e act device timestampStr old new rest (buf, sensor, unitIndex))"

text \<open>
  The rows of one record pair, appended to the buffer; \<open>None\<close> when the script list is
  empty, where the source dereferences the null \<^verbatim>\<open>first()\<close>.  \<open>act\<close> is
  \<^verbatim>\<open>_unit_active\<close> and \<open>device\<close> is what \<^verbatim>\<open>resolveDeviceName()\<close> returns.
\<close>

definition assemble_rows ::
  "env \<Rightarrow> uploader \<Rightarrow> IotaLogRecord \<Rightarrow> IotaLogRecord \<Rightarrow> string \<Rightarrow> string option" where
  "assemble_rows e u old new buf =
     (let timestampStr = datef e (UNIXtime old);
          act = unit_active u;
          device = resolveDeviceName e u
      in case outputs u of
           [] \<Rightarrow> None
         | script # _ \<Rightarrow>
             (let sensor = name script;
                  buf = buf @ row_start timestampStr device sensor;
                  (buf, sensor, unitIndex) =
                    script_loop e act device timestampStr old new (outputs u) (buf, sensor, 0);
                  (buf, unitIndex) = null_fill act (length act) (buf, unitIndex)
              in Some buf))"

subsection \<open>\<^verbatim>\<open>handle_write_s\<close>\<close>

text \<open>
  One iteration of the assembly loop after the time check (lines 381 to 479): \<open>Inl\<close> is
  a \<^verbatim>\<open>return\<close> out of the handler, \<open>Inr\<close> goes on to the next test of the loop condition.
\<close>

definition write_body ::
  "env \<Rightarrow> uploader \<Rightarrow> IotaLogRecord \<times> IotaLogRecord \<Rightarrow> outcome + uploader" where
  "write_body e u recs =
     (let swap = fst recs;
          oldRecord = snd recs;
          newRecord = readKey e (swap\<lparr>UNIXtime := UNIXtime oldRecord + interval u\<rparr>);
          u = u\<lparr>records := Some (oldRecord, newRecord)\<rparr>;
          elapsedHours = double_sub (logHours newRecord) (logHours oldRecord)
      in if double_eq elapsedHours (Fin 0) then
           (if UNIXtime newRecord + interval u \<le> lastKey e then Inl (Return 1 u)
            else Inl (Return (UTCtime e + 1) u))
         else
           (case assemble_rows e u oldRecord newRecord (reqData u) of
              None \<Rightarrow> Inl Crash
            | Some buf \<Rightarrow> Inr (u\<lparr>reqData := buf, lastPost := UNIXtime oldRecord\<rparr>)))"

text \<open>
  The loop of lines 370 to 480.  The first argument counts the iterations that may still
  start before the time slice is used up; at 0 the handler returns 10 with the buffer and
  the record cursors kept.
\<close>

fun write_loop :: "nat \<Rightarrow> env \<Rightarrow> uploader \<Rightarrow> outcome + uploader" where
  "write_loop 0 e u =
     (case records u of
        None \<Rightarrow> Inl Crash
      | Some recs \<Rightarrow>
          if length (reqData u) < uploaderBufferLimit e \<and> UNIXtime (snd recs) < lastKey e
          then Inl (Return 10 u)
          else Inr u)"
| "write_loop (Suc n) e u =
     (case records u of
        None \<Rightarrow> Inl Crash
      | Some recs \<Rightarrow>
          if length (reqData u) < uploaderBufferLimit e \<and> UNIXtime (snd recs) < lastKey e
          then (case write_body e u recs of
                  Inl out \<Rightarrow> Inl out
                | Inr u' \<Rightarrow> write_loop n e u')
          else Inr u)"

definition dataThreshold :: "uploader \<Rightarrow> 32 word" where
  "dataThreshold u = lastSent u + interval u + interval u * bulkSend u"

text \<open>Lines 357 to 368: allocate and position the record cursors, start the buffer.\<close>

definition write_init :: "env \<Rightarrow> uploader \<Rightarrow> uploader" where
  "write_init e u0 =
     (let u = (if records u0 = None
               then u0\<lparr>records :=
                        Some (newIotaLogRecord e,
                              readKey e ((newIotaLogRecord e)
                                           \<lparr>UNIXtime := lastSent u0 + interval u0\<rparr>))\<rparr>
               else u0)
      in if length (reqData u) = 0 then u\<lparr>reqData := reqData u @ CSVheader u\<rparr> else u)"

text \<open>Lines 481 to 508: close the buffer and submit it.\<close>

definition write_submit :: "env \<Rightarrow> uploader \<Rightarrow> outcome" where
  "write_submit e u0 =
     (let u = u0\<lparr>reqData := reqData u0 @ [CHR 0x0A]\<rparr> in
      if length (reqData u) \<le> 1
      then Return (UTCtime e + 5) (u\<lparr>reqData := [], records := None\<rparr>)
      else Return 1 (HTTPPost (endpoint_path u) checkWrite_s ''text/csv'' (u\<lparr>records := None\<rparr>)))"

definition handle_write_s :: "env \<Rightarrow> uploader \<Rightarrow> outcome" where
  "handle_write_s e u =
     (if stop u then Return 1 (stop_uploader u)
      else if lastKey e < dataThreshold u
      then Return (UTCtime e + 1) (if records u \<noteq> None then u\<lparr>records := None\<rparr> else u)
      else (case write_loop (budget e) e (write_init e u) of
              Inl out \<Rightarrow> out
            | Inr u' \<Rightarrow> write_submit e u'))"

subsection \<open>\<^verbatim>\<open>handle_checkWrite_s\<close>\<close>

definition handle_checkWrite_s :: "env \<Rightarrow> uploader \<Rightarrow> outcome" where
  "handle_checkWrite_s e u0 =
     (case request u0 of
        None \<Rightarrow> Return 10 u0
      | Some rq \<Rightarrow>
          if readyState rq \<noteq> 4
          then Return (UTCtime e + 10) (u0\<lparr>request := None, state := write_s\<rparr>)
          else
            let u = u0\<lparr>statusMessage := None\<rparr>;
                httpCode = responseHTTPcode rq
            in if httpCode = 201
               then Return 1 (u\<lparr>lastSent := lastPost u, state := write_s\<rparr>)
               else Return (UTCtime e + 10)
                      (u\<lparr>statusMessage := Some (failure_message ''POST'' httpCode (responseText rq)),
                         request := None, state := write_s\<rparr>))"

subsection \<open>The calendar helpers\<close>

text \<open>
  Modelled from the spec: \<^verbatim>\<open>Unixtime\<close> and \<^verbatim>\<open>datef\<close> are defined elsewhere in the
  firmware.  The spec says that the naive fields are converted to an absolute UTC
  timestamp, and that formatting renders the canonical ISO UTC form with a literal
  \<^verbatim>\<open>Z\<close> suffix.  Both are modelled on the proleptic Gregorian calendar, counting
  seconds from 1970-01-01T00:00:00Z, the result truncated to 32 bits.
\<close>

definition is_leap :: "nat \<Rightarrow> bool" where
  "is_leap y \<longleftrightarrow> (y mod 4 = 0 \<and> y mod 100 \<noteq> 0) \<or> y mod 400 = 0"

definition year_days :: "nat \<Rightarrow> nat" where
  "year_days y = (if is_leap y then 366 else 365)"

definition month_days :: "nat \<Rightarrow> nat \<Rightarrow> nat" where
  "month_days y m =
     (if m = 2 then (if is_leap y then 29 else 28)
      else if m = 4 \<or> m = 6 \<or> m = 9 \<or> m = 11 then 30 else 31)"

text \<open>Days from 1970-01-01 to the first day of the year \<open>1970 + n\<close>.\<close>

fun days_to_year :: "nat \<Rightarrow> nat" where
  "days_to_year 0 = 0"
| "days_to_year (Suc n) = days_to_year n + year_days (1970 + n)"

text \<open>Days in the first \<open>k\<close> months of year \<open>y\<close>.\<close>

fun days_to_month :: "nat \<Rightarrow> nat \<Rightarrow> nat" where
  "days_to_month y 0 = 0"
| "days_to_month y (Suc k) = days_to_month y k + month_days y (Suc k)"

text \<open>
  Modelled from the spec: \<^verbatim>\<open>Unixtime\<close>, the absolute UTC timestamp of six naive fields.
\<close>

definition Unixtime_utc :: unixtime_fn where
  "Unixtime_utc year month day hour minute second =
     word_of_int
       ((((int (days_to_year (nat (year - 1970)))
            + int (days_to_month (nat year) (nat (month - 1))) + (day - 1)) * 24
          + hour) * 60 + minute) * 60 + second)"

function year_of_days :: "nat \<Rightarrow> nat \<Rightarrow> nat \<times> nat" where
  "year_of_days n d =
     (if d < year_days (1970 + n) then (n, d)
      else year_of_days (Suc n) (d - year_days (1970 + n)))"
  by pat_completeness auto
termination
  by (relation "measure (\<lambda>(n, d). d)") (auto simp: year_days_def)

declare year_of_days.simps [simp del]

function month_of_days :: "nat \<Rightarrow> nat \<Rightarrow> nat \<Rightarrow> nat \<times> nat" where
  "month_of_days y k d =
     (if d < month_days y (Suc k) then (k, d)
      else month_of_days y (Suc k) (d - month_days y (Suc k)))"
  by pat_completeness auto
termination
  by (relation "measure (\<lambda>(y, k, d). d)") (auto simp: month_days_def)

declare month_of_days.simps [simp del]

definition zero_pad :: "nat \<Rightarrow> nat \<Rightarrow> string" where
  "zero_pad w n = replicate (w - length (show_nat n)) CHR ''0'' @ show_nat n"

text \<open>
  Modelled from the spec: \<^verbatim>\<open>datef\<close> with the format \<^verbatim>\<open>YYYY-MM-DDThh:mm:ssZ\<close>, the
  canonical ISO UTC form with the literal \<^verbatim>\<open>Z\<close> suffix.
\<close>

definition datef_utc :: "32 word \<Rightarrow> string" where
  "datef_utc t =
     (let days = unat t div 86400;
          secs = unat t mod 86400;
          (n, doy) = year_of_days 0 days;
          (k, dom) = month_of_days (1970 + n) 0 doy
      in zero_pad 4 (1970 + n) @ ''-'' @ zero_pad 2 (Suc k) @ ''-'' @ zero_pad 2 (Suc dom)
         @ ''T'' @ zero_pad 2 (secs div 3600) @ '':'' @ zero_pad 2 (secs mod 3600 div 60)
         @ '':'' @ zero_pad 2 (secs mod 60) @ ''Z'')"

subsection \<open>A sample installation\<close>

text \<open>
  A concrete log, script list and uploader, used to run the handlers.  The log holds a
  record every 60 seconds up to \<open>lastKey\<close>; \<open>sample_hours\<close> gives the \<^verbatim>\<open>logHours\<close> of the
  record at a key.  The number printer stands for \<^verbatim>\<open>%.*f\<close> on whole numbers with
  precision 0.  The JSON reader knows the empty array only.  Numbers beyond the range of
  \<^verbatim>\<open>int\<close> saturate.
\<close>

definition saturate :: overflow_fn where
  "saturate n = (if n < 0 then - 2147483648 else 2147483647)"

definition sample_printf :: "nat \<Rightarrow> double \<Rightarrow> string" where
  "sample_printf p v = (case v of NaN \<Rightarrow> ''nan'' | Fin x \<Rightarrow> show_int \<lfloor>x\<rfloor>)"

definition sample_env :: "(32 word \<Rightarrow> real) \<Rightarrow> 32 word \<Rightarrow> env" where
  "sample_env sample_hours last_key =
     \<lparr>int_overflow = saturate,
      Unixtime = Unixtime_utc,
      datef = datef_utc,
      parseArray = (\<lambda>s. if s = ''[]'' then Some [] else None),
      firstKey = 0,
      lastKey = last_key,
      readKey = (\<lambda>r. r\<lparr>logHours := Fin (sample_hours (UNIXtime r))\<rparr>),
      newIotaLogRecord = \<lparr>UNIXtime = 0, logHours = Fin 0, accum1 = []\<rparr>,
      UTCtime = 1000,
      WiFi_isConnected = True,
      uploaderBufferLimit = 4096,
      deviceName = ''iota'',
      printf_f = sample_printf,
      budget = 100\<rparr>"

definition sample_script :: "string \<Rightarrow> nat \<Rightarrow> double \<Rightarrow> Script" where
  "sample_script sensor unit v =
     \<lparr>name = sensor, getUnitsEnum = unit, precision = 0, run = (\<lambda>old new. v)\<rparr>"

definition sample_uploader :: "Script list \<Rightarrow> uploader" where
  "sample_uploader scripts =
     \<lparr>table = ''readings'',
      deviceName_cfg = Some ''$device'',
      jwtToken = None,
      schema = Some ''public'',
      unit_active = [True, True, True],
      CSVheader = ''timestamp,device,sensor,Watts,Volts,Amps'',
      outputs = scripts,
      state = write_s,
      stop = False,
      lastSent = 0,
      lastPost = 0,
      uploadStartDate = 0,
      interval = 60,
      bulkSend = 2,
      request = None,
      statusMessage = None,
      records = None,
      reqData = [],
      delayResumeTime = 0,
      delayResumeState = query_s,
      issued = []\<rparr>"

definition sample_response :: "nat \<Rightarrow> int \<Rightarrow> string \<Rightarrow> asyncHTTPrequest" where
  "sample_response ready code body =
     \<lparr>readyState = ready, responseHTTPcode = code, responseText = body\<rparr>"

text \<open>
  Three scripts: sensor A with units 0 and 1, sensor B with unit 0.  \<open>running_hours\<close> is
  the \<^verbatim>\<open>logHours\<close> of a device that never stopped; \<open>stalled_hours\<close> is that of a log
  whose records all carry the same \<^verbatim>\<open>logHours\<close>.
\<close>

definition sample_scripts :: "double \<Rightarrow> double \<Rightarrow> double \<Rightarrow> Script list" where
  "sample_scripts a0 a1 b0 =
     [sample_script ''A'' 0 a0, sample_script ''A'' 1 a1, sample_script ''B'' 0 b0]"

definition running_hours :: "32 word \<Rightarrow> real" where
  "running_hours t = real (unat t) / 3600"

definition stalled_hours :: "32 word \<Rightarrow> real" where
  "stalled_hours t = 1"

subsection \<open>The resume point\<close>

text \<open>
  The value that lines 311 and 312 leave in \<^verbatim>\<open>_lastSent\<close> before it is floored: the
  largest of the watermark found in the response (the value on entry when there is none),
  the configured start date and the first key of the log.
\<close>

definition resume_base :: "env \<Rightarrow> uploader \<Rightarrow> asyncHTTPrequest \<Rightarrow> 32 word" where
  "resume_base e u rq =
     max (max (case response_watermark e (responseText rq) of
                 None \<Rightarrow> lastSent u
               | Some timestamp \<Rightarrow> timestamp)
              (uploadStartDate u))
         (firstKey e)"

subsection \<open>The rows of a sensor, column by column\<close>

text \<open>
  What a finished row looks like, for comparison with the row assembly of the source:
  the row start, then one slot for every active unit in the order of the enumeration.
  \<open>cols\<close> gives the text of the slots that hold a value; every other slot is
  \<^verbatim>\<open>,NULL\<close>.  \<open>cell\<close> is the slot of a script value: the printed number, or
  \<^verbatim>\<open>,NULL\<close> for the not-a-number sentinel.  \<open>nulls\<close> is a run of empty slots.
\<close>

definition nulls :: "bool list \<Rightarrow> nat \<Rightarrow> nat \<Rightarrow> string" where
  "nulls act i j = concat (map (\<lambda>k. if act ! k then '',NULL'' else []) [i..<j])"

definition cell :: "env \<Rightarrow> nat \<Rightarrow> double \<Rightarrow> string" where
  "cell e p v = (if double_eq v v then '','' @ printf_f e p v else '',NULL'')"

definition slots :: "bool list \<Rightarrow> (nat \<Rightarrow> string option) \<Rightarrow> nat \<Rightarrow> nat \<Rightarrow> string" where
  "slots act cols i j =
     concat (map (\<lambda>k. if act ! k then (case cols k of None \<Rightarrow> '',NULL'' | Some c \<Rightarrow> c) else [])
               [i..<j])"

definition csv_row ::
  "bool list \<Rightarrow> string \<Rightarrow> string \<Rightarrow> string \<Rightarrow> (nat \<Rightarrow> string option) \<Rightarrow> string" where
  "csv_row act timestampStr device sensor cols =
     row_start timestampStr device sensor @ slots act cols 0 (length act)"

subsection \<open>The textual forms of a timestamp\<close>

text \<open>
  The five forms that the comments of \<^verbatim>\<open>parseTimestamp\<close> name, built from the digit
  strings of their fields: date and time joined by a separator, optionally followed by a
  zone.  \<open>digits\<close> holds for a non-empty string of decimal digits; \<open>no_digit_ahead\<close> holds
  for a text that does not start with a digit.
\<close>

definition digits :: "string \<Rightarrow> bool" where
  "digits ds \<longleftrightarrow> ds \<noteq> [] \<and> list_all isdigit ds"

text \<open>A digit string whose value is in the range of a C \<^verbatim>\<open>int\<close>.\<close>

definition int_digits :: "string \<Rightarrow> bool" where
  "int_digits ds \<longleftrightarrow> digits ds \<and> dec ds \<le> 2147483647"

definition no_digit_ahead :: "string \<Rightarrow> bool" where
  "no_digit_ahead r = (case r of [] \<Rightarrow> True | c # _ \<Rightarrow> \<not> isdigit c)"

definition date_text :: "string \<Rightarrow> string \<Rightarrow> string \<Rightarrow> string" where
  "date_text Y M D = Y @ ''-'' @ M @ ''-'' @ D"

definition time_text :: "string \<Rightarrow> string \<Rightarrow> string \<Rightarrow> string" where
  "time_text h m s = h @ '':'' @ m @ '':'' @ s"

text \<open>(1) \<^verbatim>\<open>2023-10-15 14:30:25+10:30\<close>\<close>

definition text_offset_hm ::
  "string \<Rightarrow> string \<Rightarrow> string \<Rightarrow> string \<Rightarrow> string \<Rightarrow> string \<Rightarrow> char \<Rightarrow> string \<Rightarrow> string \<Rightarrow> string" where
  "text_offset_hm Y M D h m s sign zh zm =
     date_text Y M D @ '' '' @ time_text h m s @ [sign] @ zh @ '':'' @ zm"

text \<open>(2) \<^verbatim>\<open>2023-10-15 14:30:25+10\<close>\<close>

definition text_offset_h ::
  "string \<Rightarrow> string \<Rightarrow> string \<Rightarrow> string \<Rightarrow> string \<Rightarrow> string \<Rightarrow> char \<Rightarrow> string \<Rightarrow> string" where
  "text_offset_h Y M D h m s sign zh =
     date_text Y M D @ '' '' @ time_text h m s @ [sign] @ zh"

text \<open>(3) \<^verbatim>\<open>2023-10-15T14:30:25Z\<close>\<close>

definition text_iso_utc ::
  "string \<Rightarrow> string \<Rightarrow> string \<Rightarrow> string \<Rightarrow> string \<Rightarrow> string \<Rightarrow> string" where
  "text_iso_utc Y M D h m s = date_text Y M D @ ''T'' @ time_text h m s @ ''Z''"

text \<open>(4) \<^verbatim>\<open>2023-10-15T14:30:25\<close>\<close>

definition text_iso ::
  "string \<Rightarrow> string \<Rightarrow> string \<Rightarrow> string \<Rightarrow> string \<Rightarrow> string \<Rightarrow> string" where
  "text_iso Y M D h m s = date_text Y M D @ ''T'' @ time_text h m s"

text \<open>(5) \<^verbatim>\<open>2023-10-15 14:30:25\<close>\<close>

definition text_simple ::
  "string \<Rightarrow> string \<Rightarrow> string \<Rightarrow> string \<Rightarrow> string \<Rightarrow> string \<Rightarrow> string" where
  "text_simple Y M D h m s = date_text Y M D @ '' '' @ time_text h m s"

text \<open>The signed offset in seconds that a sign character and zone fields stand for.\<close>

definition zone_seconds :: "char \<Rightarrow> int \<Rightarrow> int \<Rightarrow> int" where
  "zone_seconds sign zh zm =
     (if sign = CHR ''-'' then - (zh * 3600 + zm * 60) else zh * 3600 + zm * 60)"

subsection \<open>The pieces of a row\<close>

text \<open>
  The pieces that the row assembly prints: the start of a row of a sensor, an empty slot,
  and a value printed with a precision.  \<open>render_chunk\<close> is the text of a piece in a row
  with a given timestamp and device; \<open>pair_text\<close> is the text of a list of pieces, stamped
  with the formatted timestamp of a log record.  \<open>starts_row\<close> holds for a list of pieces
  that begins with a row start.
\<close>

datatype chunk = RowStart string | NullCell | ValueCell nat double

fun render_chunk :: "env \<Rightarrow> string \<Rightarrow> string \<Rightarrow> chunk \<Rightarrow> string" where
  "render_chunk e timestampStr device (RowStart sensor) = row_start timestampStr device sensor"
| "render_chunk e timestampStr device NullCell = '',NULL''"
| "render_chunk e timestampStr device (ValueCell p v) = '','' @ printf_f e p v"

definition pair_text :: "env \<Rightarrow> uploader \<Rightarrow> IotaLogRecord \<times> chunk list \<Rightarrow> string" where
  "pair_text e u st =
     concat (map (render_chunk e (datef e (UNIXtime (fst st))) (resolveDeviceName e u)) (snd st))"


section \<open>Properties\<close>

subsection \<open>Resolving the resume point\<close>

lemma floor_word:
  fixes x i :: "32 word"
  assumes "i \<noteq> 0"
  shows "unat (x - x mod i) mod unat i = 0"
    and "x - x mod i \<le> x"
    and "unat x < unat (x - x mod i) + unat i"
proof -
  have le: "x mod i \<le> x" by (simp add: word_le_nat_alt unat_mod)
  have u: "unat (x - x mod i) = unat x - unat x mod unat i"
    using le by (simp add: unat_sub unat_mod)
  have i0: "0 < unat i" using assms by (simp add: unat_gt_0)
  show "unat (x - x mod i) mod unat i = 0"
    unfolding u by (simp add: minus_mod_eq_mult_div)
  show "x - x mod i \<le> x"
    using le by (simp add: word_le_nat_alt u)
  have "unat x mod unat i < unat i" using i0 by simp
  moreover have "unat x mod unat i \<le> unat x" by simp
  ultimately show "unat x < unat (x - x mod i) + unat i"
    unfolding u by linarith
qed

lemma checkQuery_success:
  assumes "request u = Some rq" and "readyState rq = 4" and "responseHTTPcode rq = 200"
    and "interval u \<noteq> 0"
  shows "handle_checkQuery_s e u =
           Return 1 (u\<lparr>statusMessage := None,
                       lastSent := resume_base e u rq - resume_base e u rq mod interval u,
                       request := None, state := write_s\<rparr>)"
  using assms
  by (simp add: handle_checkQuery_s_def resume_base_def Let_def split: option.splits)

text \<open>
  Claim C1, as the code has it.  When the query has completed with code 200 and the
  interval is not 0, \<^verbatim>\<open>handle_checkQuery_s\<close> moves to the write phase with a watermark that
  is a multiple of the interval: the largest one that does not exceed the maximum of the
  remote watermark, the configured start date and the first log key.  The watermark
  itself can be lower than the start date or the first log key, by less than one interval;
  the first record read, at the watermark plus one interval, lies above both.
\<close>

theorem resume_watermark_floor:
  assumes "request u = Some rq" and "readyState rq = 4" and "responseHTTPcode rq = 200"
    and "interval u \<noteq> 0"
  shows "\<exists>u'. handle_checkQuery_s e u = Return 1 u' \<and> state u' = write_s
           \<and> lastSent u' = resume_base e u rq - resume_base e u rq mod interval u
           \<and> unat (lastSent u') mod unat (interval u) = 0
           \<and> lastSent u' \<le> resume_base e u rq
           \<and> unat (max (uploadStartDate u) (firstKey e)) < unat (lastSent u') + unat (interval u)"
proof -
  let ?b = "resume_base e u rq"
  let ?i = "interval u"
  have "max (uploadStartDate u) (firstKey e) \<le> ?b"
    unfolding resume_base_def by (intro max.mono max.cobounded2 order_refl)
  then have "unat (max (uploadStartDate u) (firstKey e)) \<le> unat ?b"
    by (simp add: word_le_nat_alt)
  with floor_word(3)[OF assms(4), of ?b]
  have "unat (max (uploadStartDate u) (firstKey e)) < unat (?b - ?b mod ?i) + unat ?i"
    by linarith
  with floor_word(1,2)[OF assms(4), of ?b] checkQuery_success[OF assms, of e]
  show ?thesis by simp
qed

theorem resume_watermark_floor_witness:
  "\<exists>u'. handle_checkQuery_s (sample_env (\<lambda>t. 0) 180)
          ((sample_uploader [])\<lparr>request := Some (sample_response 4 200 ''[]''),
                                 uploadStartDate := 125\<rparr>) = Return 1 u'
        \<and> state u' = write_s \<and> lastSent u' = 120"
  using resume_watermark_floor [of "(sample_uploader [])\<lparr>request := Some (sample_response 4 200 ''[]''),
                                 uploadStartDate := 125\<rparr>" "sample_response 4 200 ''[]''" "sample_env (\<lambda>t. 0) 180"]
  by (auto simp add: resume_base_def response_watermark_def sample_env_def sample_uploader_def sample_response_def)

text \<open>
  Claim C1 as stated fails: with a start date of 125, an interval of 60, an empty log
  history and no remote rows the watermark is 120, below the start date.
\<close>

theorem resume_watermark_below_start:
  "(case handle_checkQuery_s (sample_env (\<lambda>t. 0) 180)
           ((sample_uploader [])\<lparr>request := Some (sample_response 4 200 ''[]''),
                                  uploadStartDate := 125\<rparr>) of
      Return d u' \<Rightarrow>
        lastSent u' = 120
        \<and> \<not> max (uploadStartDate ((sample_uploader [])\<lparr>uploadStartDate := 125\<rparr>))
                 (firstKey (sample_env (\<lambda>t. 0) 180)) \<le> lastSent u'
    | Crash \<Rightarrow> False)"
  by (simp add: handle_checkQuery_s_def response_watermark_def sample_env_def sample_uploader_def sample_response_def)

subsection \<open>The assembly loop\<close>

lemma assemble_rows_frame [simp]:
  "assemble_rows e (u\<lparr>records := r\<rparr>) = assemble_rows e u"
  "assemble_rows e (u\<lparr>reqData := b\<rparr>) = assemble_rows e u"
  "assemble_rows e (u\<lparr>lastPost := p\<rparr>) = assemble_rows e u"
  by (simp_all add: assemble_rows_def resolveDeviceName_def fun_eq_iff Let_def split: list.splits)

lemma write_body_cases:
  assumes "write_body e u recs = Inr u'"
  shows "\<exists>new b. assemble_rows e u (snd recs) new (reqData u) = Some b
       \<and> u' = u\<lparr>records := Some (snd recs, new), reqData := b, lastPost := UNIXtime (snd recs)\<rparr>"
  using assms
  by (auto simp: write_body_def Let_def split: if_splits option.splits)

lemma write_loop_exit:
  "write_loop n e u = Inr u1 \<Longrightarrow>
     u1 = u \<or>
     (\<exists>old new buf b. assemble_rows e u old new buf = Some b
        \<and> u1 = u\<lparr>records := Some (old, new), reqData := b, lastPost := UNIXtime old\<rparr>)"
proof (induction n arbitrary: u)
  case 0
  then show ?case by (auto split: option.splits if_splits)
next
  case (Suc n)
  show ?case
  proof (cases "records u")
    case None
    with Suc.prems show ?thesis by simp
  next
    case (Some recs)
    show ?thesis
    proof (cases "length (reqData u) < uploaderBufferLimit e \<and> UNIXtime (snd recs) < lastKey e")
      case False
      with Suc.prems Some show ?thesis by auto
    next
      case True
      with Suc.prems Some obtain u' where b: "write_body e u recs = Inr u'"
        and l: "write_loop n e u' = Inr u1"
        by (auto split: sum.splits)
      from write_body_cases[OF b] obtain new b where
        a: "assemble_rows e u (snd recs) new (reqData u) = Some b"
        and u': "u' = u\<lparr>records := Some (snd recs, new), reqData := b, lastPost := UNIXtime (snd recs)\<rparr>"
        by blast
      from Suc.IH[OF l] show ?thesis
      proof
        assume "u1 = u'"
        with a u' show ?thesis by blast
      next
        assume "\<exists>old new buf b. assemble_rows e u' old new buf = Some b
        \<and> u1 = u'\<lparr>records := Some (old, new), reqData := b, lastPost := UNIXtime old\<rparr>"
        then obtain old nw buf b' where r: "assemble_rows e u' old nw buf = Some b'"
           "u1 = u'\<lparr>records := Some (old, nw), reqData := b', lastPost := UNIXtime old\<rparr>"
          by blast
        have "assemble_rows e u old nw buf = Some b'"
          using r(1) by (subst (asm) u') simp
        moreover have "u1 = u\<lparr>records := Some (old, nw), reqData := b', lastPost := UNIXtime old\<rparr>"
          by (subst r(2), subst u') simp
        ultimately show ?thesis by blast
      qed
    qed
  qed
qed

lemma write_init_frame [simp]:
  "lastSent (write_init e u) = lastSent u"
  "lastPost (write_init e u) = lastPost u"
  "interval (write_init e u) = interval u"
  "issued (write_init e u) = issued u"
  "state (write_init e u) = state u"
  "request (write_init e u) = request u"
  "endpoint_path (write_init e u) = endpoint_path u"
  "assemble_rows e (write_init e u) = assemble_rows e u"
  by (simp_all add: write_init_def Let_def endpoint_path_def)

lemma handle_write_s_loop_exit:
  assumes "\<not> stop u" and "\<not> lastKey e < dataThreshold u"
    and "write_loop (budget e) e (write_init e u) = Inr uL"
  shows "handle_write_s e u = write_submit e uL"
  using assms by (simp add: handle_write_s_def)

lemma write_submit_post:
  assumes "reqData u \<noteq> []"
  shows "write_submit e u =
           Return 1 (u\<lparr>reqData := [], records := None, state := checkWrite_s,
                       issued := issued u @ [HTTP_POST (endpoint_path u) (reqData u @ [CHR 0x0A])
                                               ''text/csv'' checkWrite_s]\<rparr>)"
proof -
  have "\<not> length (reqData u) = 0" using assms by simp
  then show ?thesis
    by (simp add: write_submit_def HTTPPost_def Let_def endpoint_path_def)
qed

lemma checkWrite_created:
  assumes "request u = Some rq" and "readyState rq = 4" and "responseHTTPcode rq = 201"
  shows "handle_checkWrite_s e u =
           Return 1 (u\<lparr>statusMessage := None, lastSent := lastPost u, state := write_s\<rparr>)"
  using assms by (simp add: handle_checkWrite_s_def Let_def)

lemma checkWrite_failed:
  assumes "request u = Some rq" and "readyState rq \<noteq> 4 \<or> responseHTTPcode rq \<noteq> 201"
  shows "\<exists>u'. handle_checkWrite_s e u = Return (UTCtime e + 10) u'
           \<and> lastSent u' = lastSent u \<and> lastPost u' = lastPost u \<and> records u' = records u
           \<and> reqData u' = reqData u \<and> interval u' = interval u \<and> bulkSend u' = bulkSend u
           \<and> stop u' = stop u \<and> request u' = None \<and> state u' = write_s"
  using assms by (cases "readyState rq = 4") (simp_all add: handle_checkWrite_s_def Let_def)

lemma null_fill_appends:
  "\<exists>t. fst (null_fill act lm (buf, i)) = buf @ t"
proof (induction act lm "(buf, i)" arbitrary: buf i rule: null_fill.induct)
  case (1 act limit buf unitIndex)
  show ?case
  proof (cases "unitIndex < limit")
    case False
    then show ?thesis by (simp add: null_fill.simps)
  next
    case True
    from "1"[OF True] obtain t where
      "fst (null_fill act limit (if act ! unitIndex then buf @ '',NULL'' else buf, Suc unitIndex))
         = (if act ! unitIndex then buf @ '',NULL'' else buf) @ t"
      by blast
    with True show ?thesis
      by (subst null_fill.simps) (auto split: if_splits)
  qed
qed

lemma script_loop_appends:
  "\<exists>t. fst (script_loop e act device ts old new scripts (buf, sensor, i)) = buf @ t"
proof (induction scripts arbitrary: buf sensor i)
  case Nil
  then show ?case by simp
next
  case (Cons script rest)
  show ?case
  proof (cases "double_eq (run script old new) (run script old new)")
    case False
    with Cons show ?thesis by simp
  next
    case True
    obtain b1 i1 where n1: "null_fill act (length act) (buf, i) = (b1, i1)" by fastforce
    from null_fill_appends[of act "length act" buf i] n1 obtain t1 where t1: "b1 = buf @ t1" by auto
    define b2 where "b2 = (if sensor \<noteq> name script then b1 @ row_start ts device (name script) else buf)"
    define s2 where "s2 = (if sensor \<noteq> name script then name script else sensor)"
    define i2 where "i2 = (if sensor \<noteq> name script then 0 else i)"
    obtain b3 i3 where n3: "null_fill act (getUnitsEnum script) (b2, i2) = (b3, i3)" by fastforce
    from null_fill_appends[of act "getUnitsEnum script" b2 i2] n3 obtain t3 where t3: "b3 = b2 @ t3" by auto
    define b4 where "b4 = (if i3 = getUnitsEnum script then b3 @ '','' @ printf_f e (precision script) (run script old new) else b3)"
    define i4 where "i4 = (if i3 = getUnitsEnum script then Suc i3 else i3)"
    have step: "script_loop e act device ts old new (script # rest) (buf, sensor, i)
                = script_loop e act device ts old new rest (b4, s2, i4)"
      using True n1 n3 unfolding b2_def s2_def i2_def b4_def i4_def
      by (cases "sensor = name script") (simp_all add: Let_def)
    from Cons[of b4 s2 i4] obtain t where "fst (script_loop e act device ts old new rest (b4, s2, i4)) = b4 @ t"
      by blast
    moreover have "\<exists>t'. b4 = buf @ t'"
      by (auto simp: b4_def t3 b2_def t1)
    ultimately show ?thesis unfolding step by auto
  qed
qed

lemma assemble_rows_appends:
  assumes "assemble_rows e u old new buf = Some b"
  shows "\<exists>t. b = buf @ [CHR 0x0A] @ t"
proof -
  from assms obtain script rest where o: "outputs u = script # rest"
    by (cases "outputs u") (auto simp: assemble_rows_def)
  let ?ts = "datef e (UNIXtime old)"
  let ?dev = "resolveDeviceName e u"
  let ?b0 = "buf @ row_start ?ts ?dev (name script)"
  obtain b1 s1 i1 where sl: "script_loop e (unit_active u) ?dev ?ts old new (outputs u) (?b0, name script, 0) = (b1, s1, i1)"
    by (metis prod_cases3)
  obtain b2 i2 where nf: "null_fill (unit_active u) (length (unit_active u)) (b1, i1) = (b2, i2)"
    by fastforce
  have "b = b2" using assms o sl nf by (simp add: assemble_rows_def Let_def)
  moreover from script_loop_appends[of e "unit_active u" ?dev ?ts old new "outputs u" ?b0 "name script" 0] sl
  obtain t1 where "b1 = ?b0 @ t1" by auto
  moreover from null_fill_appends[of "unit_active u" "length (unit_active u)" b1 i1] nf
  obtain t2 where "b2 = b1 @ t2" by auto
  ultimately show ?thesis by (simp add: row_start_def)
qed

lemma write_body_return:
  assumes "write_body e u recs = Inl (Return d u')"
  shows "u' = u\<lparr>records := Some (snd recs,
                   readKey e ((fst recs)\<lparr>UNIXtime := UNIXtime (snd recs) + interval u\<rparr>))\<rparr>
         \<and> (d = 1 \<or> d = UTCtime e + 1)"
  using assms
  by (auto simp: write_body_def Let_def split: if_splits option.splits)

lemma write_loop_frame:
  assumes "write_loop n e u = Inr u' \<or> write_loop n e u = Inl (Return d u')"
  shows "lastSent u' = lastSent u \<and> issued u' = issued u \<and> state u' = state u
         \<and> interval u' = interval u \<and> request u' = request u
         \<and> (lastPost u' = lastPost u \<or> lastPost u' < lastKey e)"
  using assms
proof (induction n arbitrary: u)
  case 0
  then show ?case by (auto split: option.splits if_splits)
next
  case (Suc n)
  show ?case
  proof (cases "records u")
    case None
    with Suc.prems show ?thesis by simp
  next
    case (Some recs)
    show ?thesis
    proof (cases "length (reqData u) < uploaderBufferLimit e \<and> UNIXtime (snd recs) < lastKey e")
      case False
      with Suc.prems Some show ?thesis by auto
    next
      case True
      show ?thesis
      proof (cases "write_body e u recs")
        case (Inl out)
        with Suc.prems Some True have "out = Return d u'" by simp
        with Inl write_body_return[of e u recs d u'] show ?thesis by auto
      next
        case (Inr u1)
        with Suc.prems Some True
        have l: "write_loop n e u1 = Inr u' \<or> write_loop n e u1 = Inl (Return d u')" by simp
        from write_body_cases[OF Inr] obtain new b where
          u1: "u1 = u\<lparr>records := Some (snd recs, new), reqData := b, lastPost := UNIXtime (snd recs)\<rparr>"
          by blast
        have p: "lastSent u1 = lastSent u" "issued u1 = issued u" "state u1 = state u"
          "interval u1 = interval u" "request u1 = request u" "lastPost u1 = UNIXtime (snd recs)"
          by (simp_all add: u1)
        from Suc.IH[OF l] p True show ?thesis by auto
      qed
    qed
  qed
qed

subsection \<open>Decimal digits\<close>

lemma digit_char_eval:
  "digit_char 0 = CHR ''0''" "digit_char 1 = CHR ''1''" "digit_char (Suc 0) = CHR ''1''"
  "digit_char 2 = CHR ''2''" "digit_char 3 = CHR ''3''" "digit_char 4 = CHR ''4''"
  "digit_char 5 = CHR ''5''" "digit_char 6 = CHR ''6''" "digit_char 7 = CHR ''7''"
  "digit_char 8 = CHR ''8''" "digit_char 9 = CHR ''9''"
  by code_simp+

lemma digit_char_inv:
  "d < 10 \<Longrightarrow> isdigit (digit_char d) \<and> digit_val (digit_char d) = int d"
  by (simp add: digit_char_def isdigit_def digit_val_def)

subsection \<open>Running the handlers on the sample installation\<close>

lemma write_loop_unfold:
  "write_loop n e u =
     (case records u of
        None \<Rightarrow> Inl Crash
      | Some recs \<Rightarrow>
          if length (reqData u) < uploaderBufferLimit e \<and> UNIXtime (snd recs) < lastKey e
          then (if n = 0 then Inl (Return 10 u)
                else case write_body e u recs of
                       Inl out \<Rightarrow> Inl out
                     | Inr u' \<Rightarrow> write_loop (n - 1) e u')
          else Inr u)"
  by (cases n) (auto split: option.splits sum.splits)

lemmas sample_eval =
  sample_env_def sample_uploader_def sample_script_def sample_response_def sample_printf_def
  sample_scripts_def running_hours_def stalled_hours_def
  handle_write_s_def write_init_def write_submit_def write_body_def assemble_rows_def
  dataThreshold_def HTTPPost_def endpoint_path_def resolveDeviceName_def row_start_def
  null_fill.simps script_loop.simps datef_utc_def year_of_days.simps month_of_days.simps year_days_def
  month_days_def is_leap_def zero_pad_def show_nat.simps show_int_def digit_char_eval Let_def

subsection \<open>Settling a request\<close>

text \<open>
  Claim C7, as the code has it.  After a query, a missing or incomplete request makes the
  handler wait: it returns 10 and changes nothing.  After a write, only a missing request
  does; a request that is present but not complete is treated as a failed connection: it
  is deleted, the phase goes back to write, and the handler returns a retry time.
\<close>

theorem settle_incomplete_request:
  "(request u = None \<or> (\<exists>rq. request u = Some rq \<and> readyState rq \<noteq> 4)
      \<longrightarrow> handle_checkQuery_s e u = Return 10 u)
   \<and> (request u = None \<longrightarrow> handle_checkWrite_s e u = Return 10 u)
   \<and> (\<forall>rq. request u = Some rq \<and> readyState rq \<noteq> 4
      \<longrightarrow> handle_checkWrite_s e u
            = Return (UTCtime e + 10) (u\<lparr>request := None, state := write_s\<rparr>))"
  by (auto simp: handle_checkQuery_s_def handle_checkWrite_s_def)

theorem settle_incomplete_request_witness:
  "handle_checkQuery_s (sample_env (\<lambda>t. 0) 180) (sample_uploader [])
     = Return 10 (sample_uploader [])
   \<and> handle_checkWrite_s (sample_env (\<lambda>t. 0) 180) (sample_uploader [])
     = Return 10 (sample_uploader [])
   \<and> handle_checkQuery_s (sample_env (\<lambda>t. 0) 180)
       ((sample_uploader [])\<lparr>request := Some (sample_response 1 0 [])\<rparr>)
     = Return 10 ((sample_uploader [])\<lparr>request := Some (sample_response 1 0 [])\<rparr>)
   \<and> handle_checkWrite_s (sample_env (\<lambda>t. 0) 180)
       ((sample_uploader [])\<lparr>request := Some (sample_response 1 0 [])\<rparr>)
     = Return 1010 ((sample_uploader [])\<lparr>request := None, state := write_s\<rparr>)"
  using settle_incomplete_request [of "sample_uploader []" "sample_env (\<lambda>t. 0) 180"]
    settle_incomplete_request [of "(sample_uploader [])\<lparr>request := Some (sample_response 1 0 [])\<rparr>"
       "sample_env (\<lambda>t. 0) 180"]
  by (simp add: sample_env_def sample_uploader_def sample_response_def)

text \<open>
  Claim C7 as stated fails after a write: with a request in ready state 1 the handler
  deletes the request and leaves the settle phase.
\<close>

theorem checkWrite_incomplete_is_failure:
  "(case handle_checkWrite_s (sample_env (\<lambda>t. 0) 180)
           ((sample_uploader [])\<lparr>request := Some (sample_response 1 0 []),
                                  state := checkWrite_s\<rparr>) of
      Return d u' \<Rightarrow> d = 1010 \<and> request u' = None \<and> state u' = write_s
    | Crash \<Rightarrow> False)"
  by (simp add: handle_checkWrite_s_def sample_env_def sample_uploader_def sample_response_def)

subsection \<open>The write step and its settlement\<close>

text \<open>
  A write step that runs its loop to the end and has assembled rows in it posts the
  buffer, whose last rows are those of the last record pair \<open>(old, new)\<close> of the loop.
  When the response to that request is complete with code 201, \<^verbatim>\<open>handle_checkWrite_s\<close>
  sets \<^verbatim>\<open>_lastSent\<close> to the timestamp of \<open>old\<close>.
\<close>

lemma created_after_rows:
  assumes run: "\<not> stop u" "\<not> lastKey e < dataThreshold u"
    and loop: "write_loop (budget e) e (write_init e u) = Inr uL"
    and rows: "uL \<noteq> write_init e u"
    and resp: "readyState rq = 4" "responseHTTPcode rq = 201"
  shows "\<exists>old new buf u1 u2.
           records uL = Some (old, new)
           \<and> assemble_rows e u old new buf = Some (reqData uL)
           \<and> handle_write_s e u = Return 1 u1
           \<and> issued u1 = issued u @ [HTTP_POST (endpoint_path u) (reqData uL @ [CHR 0x0A])
                                       ''text/csv'' checkWrite_s]
           \<and> handle_checkWrite_s e' (u1\<lparr>request := Some rq\<rparr>) = Return 1 u2
           \<and> lastSent u2 = UNIXtime old \<and> state u2 = write_s"
proof -
  let ?u0 = "write_init e u"
  from write_loop_exit[OF loop] rows obtain old new buf b where
    a: "assemble_rows e ?u0 old new buf = Some b"
    and uL: "uL = ?u0\<lparr>records := Some (old, new), reqData := b, lastPost := UNIXtime old\<rparr>"
    by blast
  have p: "records uL = Some (old, new)" "reqData uL = b" "lastPost uL = UNIXtime old"
    "issued uL = issued u" "endpoint_path uL = endpoint_path u"
    by (simp_all add: uL endpoint_path_def) (simp_all add: write_init_def Let_def)
  from assemble_rows_appends[OF a] have ne: "reqData uL \<noteq> []" using p(2) by auto
  let ?u1 = "uL\<lparr>reqData := [], records := None, state := checkWrite_s,
                  issued := issued uL @ [HTTP_POST (endpoint_path uL) (reqData uL @ [CHR 0x0A])
                                           ''text/csv'' checkWrite_s]\<rparr>"
  have w: "handle_write_s e u = Return 1 ?u1"
    using handle_write_s_loop_exit[OF run loop] write_submit_post[OF ne, of e] by simp
  let ?u2 = "(?u1\<lparr>request := Some rq\<rparr>)\<lparr>statusMessage := None,
               lastSent := lastPost (?u1\<lparr>request := Some rq\<rparr>), state := write_s\<rparr>"
  have c: "handle_checkWrite_s e' (?u1\<lparr>request := Some rq\<rparr>) = Return 1 ?u2"
    by (rule checkWrite_created[OF _ resp]) simp
  have "assemble_rows e u old new buf = Some (reqData uL)"
    using a p(2) by simp
  moreover have "issued ?u1 = issued u @ [HTTP_POST (endpoint_path u) (reqData uL @ [CHR 0x0A])
                                       ''text/csv'' checkWrite_s]"
    using p(4,5) by simp
  moreover have "lastSent ?u2 = UNIXtime old" "state ?u2 = write_s"
    using p(3) by simp_all
  ultimately show ?thesis using p(1) w c by blast
qed

lemma write_submit_result:
  assumes "write_submit e u = Return d u'"
  shows "records u' = None \<and> reqData u' = [] \<and> lastSent u' = lastSent u
         \<and> lastPost u' = lastPost u \<and> interval u' = interval u"
  using assms by (auto simp: write_submit_def HTTPPost_def Let_def split: if_splits)

text \<open>
  Claim C3.  Let \<open>u1\<close> be the uploader as the submit stage of a write step leaves it, and
  let the request then fail: it is not complete, or it is complete with a code other than
  201 (negative codes included).  The settle step returns a retry time, leaves
  \<^verbatim>\<open>_lastSent\<close> as it was and goes back to the write phase.  The next write step that
  passes the stop test and the threshold test allocates its cursors again: the record it
  reads first is the one at \<^verbatim>\<open>_lastSent + _interval\<close>, and the loop starts from there.
\<close>

theorem failed_submit_keeps_watermark:
  assumes submit: "write_submit e0 u0 = Return d u1"
    and fail: "readyState rq \<noteq> 4 \<or> responseHTTPcode rq \<noteq> 201"
    and go: "\<not> stop u1" "\<not> lastKey e2 < dataThreshold u1"
  shows "\<exists>u2. handle_checkWrite_s e1 (u1\<lparr>request := Some rq\<rparr>) = Return (UTCtime e1 + 10) u2
           \<and> lastSent u2 = lastSent u1 \<and> state u2 = write_s
           \<and> records (write_init e2 u2)
               = Some (newIotaLogRecord e2,
                       readKey e2 ((newIotaLogRecord e2)\<lparr>UNIXtime := lastSent u1 + interval u1\<rparr>))
           \<and> handle_write_s e2 u2
               = (case write_loop (budget e2) e2 (write_init e2 u2) of
                    Inl out \<Rightarrow> out
                  | Inr u' \<Rightarrow> write_submit e2 u')"
proof -
  from write_submit_result[OF submit] have r: "records u1 = None" by simp
  have "request (u1\<lparr>request := Some rq\<rparr>) = Some rq" by simp
  from checkWrite_failed[OF this fail, of e1] obtain u2 where
    c: "handle_checkWrite_s e1 (u1\<lparr>request := Some rq\<rparr>) = Return (UTCtime e1 + 10) u2"
    and p: "lastSent u2 = lastSent u1" "records u2 = records u1" "interval u2 = interval u1"
      "bulkSend u2 = bulkSend u1" "stop u2 = stop u1" "state u2 = write_s"
    by auto
  have i: "records (write_init e2 u2)
             = Some (newIotaLogRecord e2,
                     readKey e2 ((newIotaLogRecord e2)\<lparr>UNIXtime := lastSent u1 + interval u1\<rparr>))"
    using r p by (simp add: write_init_def Let_def)
  have "dataThreshold u2 = dataThreshold u1" using p by (simp add: dataThreshold_def)
  with go p have "handle_write_s e2 u2
               = (case write_loop (budget e2) e2 (write_init e2 u2) of
                    Inl out \<Rightarrow> out
                  | Inr u' \<Rightarrow> write_submit e2 u')"
    by (simp add: handle_write_s_def)
  with c p i show ?thesis by blast
qed

theorem failed_submit_keeps_watermark_witness:
  "\<exists>u1 u2. write_submit (sample_env running_hours 180)
               ((sample_uploader (sample_scripts (Fin 5) (Fin 7) (Fin 9)))
                  \<lparr>reqData := ''timestamp,device,sensor,Watts,Volts,Amps''\<rparr>) = Return 1 u1
     \<and> handle_checkWrite_s (sample_env running_hours 180)
          (u1\<lparr>request := Some (sample_response 4 500 ''db error'')\<rparr>) = Return 1010 u2
     \<and> lastSent u2 = 0 \<and> state u2 = write_s
     \<and> records (write_init (sample_env running_hours 180) u2)
         = Some (\<lparr>UNIXtime = 0, logHours = Fin 0, accum1 = []\<rparr>,
                 \<lparr>UNIXtime = 60, logHours = Fin (1 / 60), accum1 = []\<rparr>)"
proof -
  let ?E = "sample_env running_hours 180"
  let ?U0 = "(sample_uploader (sample_scripts (Fin 5) (Fin 7) (Fin 9)))
                  \<lparr>reqData := ''timestamp,device,sensor,Watts,Volts,Amps''\<rparr>"
  let ?U1 = "HTTPPost (endpoint_path ?U0) checkWrite_s ''text/csv''
               (?U0\<lparr>reqData := reqData ?U0 @ [CHR 0x0A], records := None\<rparr>)"
  let ?rq = "sample_response 4 500 ''db error''"
  have h1: "write_submit ?E ?U0 = Return 1 ?U1"
    by (simp add: write_submit_def sample_uploader_def Let_def endpoint_path_def HTTPPost_def)
  have h2: "readyState ?rq \<noteq> 4 \<or> responseHTTPcode ?rq \<noteq> 201"
    by (simp add: sample_response_def)
  have h3: "\<not> stop ?U1" by (simp add: HTTPPost_def sample_uploader_def)
  have h4: "\<not> lastKey ?E < dataThreshold ?U1"
    by (simp add: HTTPPost_def sample_uploader_def sample_env_def dataThreshold_def)
  from failed_submit_keeps_watermark [OF h1 h2 h3 h4, of ?E]
  obtain u2 where
    a: "handle_checkWrite_s ?E (?U1\<lparr>request := Some ?rq\<rparr>) = Return (UTCtime ?E + 10) u2"
    and b: "lastSent u2 = lastSent ?U1" "state u2 = write_s"
    and c: "records (write_init ?E u2)
               = Some (newIotaLogRecord ?E,
                       readKey ?E ((newIotaLogRecord ?E)\<lparr>UNIXtime := lastSent ?U1 + interval ?U1\<rparr>))"
    by blast
  have "UTCtime ?E + 10 = 1010" by (simp add: sample_env_def)
  moreover have "lastSent ?U1 = 0" by (simp add: HTTPPost_def sample_uploader_def)
  moreover have "Some (newIotaLogRecord ?E,
                       readKey ?E ((newIotaLogRecord ?E)\<lparr>UNIXtime := lastSent ?U1 + interval ?U1\<rparr>))
                 = Some (\<lparr>UNIXtime = 0, logHours = Fin 0, accum1 = []\<rparr>,
                         \<lparr>UNIXtime = 60, logHours = Fin (1 / 60), accum1 = []\<rparr>)"
    by (simp add: HTTPPost_def sample_uploader_def sample_env_def running_hours_def)
  ultimately show ?thesis using h1 a b c by auto
qed

text \<open>
  Claim C10.  When the record read for a pair has the same \<^verbatim>\<open>logHours\<close> as the old
  record of the pair, the iteration of the assembly loop returns from the handler with
  the buffer as it was: no row is written, nothing is posted, and the watermark and its
  candidate are unchanged.  The handler asks to be called again at once when the log
  holds another interval, and one second later otherwise.
\<close>

theorem zero_elapsed_pair_emits_nothing:
  assumes new: "new = readKey e (swap\<lparr>UNIXtime := UNIXtime old + interval u\<rparr>)"
    and zero: "double_eq (double_sub (logHours new) (logHours old)) (Fin 0)"
  shows "\<exists>d u'. write_body e u (swap, old) = Inl (Return d u')
           \<and> reqData u' = reqData u \<and> issued u' = issued u
           \<and> lastPost u' = lastPost u \<and> lastSent u' = lastSent u
           \<and> records u' = Some (old, new)
           \<and> d = (if UNIXtime new + interval u \<le> lastKey e then 1 else UTCtime e + 1)
           \<and> (records u = Some (swap, old) \<and> length (reqData u) < uploaderBufferLimit e
                \<and> UNIXtime old < lastKey e
                \<longrightarrow> write_loop (Suc n) e u = Inl (Return d u'))"
  using assms by (simp add: write_body_def Let_def)

theorem zero_elapsed_pair_emits_nothing_witness:
  "\<exists>u'. write_body (sample_env stalled_hours 120)
           (write_init (sample_env stalled_hours 120)
              ((sample_uploader (sample_scripts (Fin 5) (Fin 7) (Fin 9)))\<lparr>bulkSend := 1\<rparr>))
           (\<lparr>UNIXtime = 0, logHours = Fin 0, accum1 = []\<rparr>,
            \<lparr>UNIXtime = 60, logHours = Fin 1, accum1 = []\<rparr>) = Inl (Return 1001 u')
     \<and> reqData u' = ''timestamp,device,sensor,Watts,Volts,Amps''
     \<and> records u' = Some (\<lparr>UNIXtime = 60, logHours = Fin 1, accum1 = []\<rparr>,
                          \<lparr>UNIXtime = 120, logHours = Fin 1, accum1 = []\<rparr>)
     \<and> issued u' = []
     \<and> write_loop (Suc 0) (sample_env stalled_hours 120)
           (write_init (sample_env stalled_hours 120)
              ((sample_uploader (sample_scripts (Fin 5) (Fin 7) (Fin 9)))\<lparr>bulkSend := 1\<rparr>))
         = Inl (Return 1001 u')"
proof -
  let ?E = "sample_env stalled_hours 120"
  let ?U = "write_init ?E ((sample_uploader (sample_scripts (Fin 5) (Fin 7) (Fin 9)))\<lparr>bulkSend := 1\<rparr>)"
  let ?swap = "\<lparr>UNIXtime = 0, logHours = Fin 0, accum1 = []\<rparr>"
  let ?old = "\<lparr>UNIXtime = 60, logHours = Fin 1, accum1 = []\<rparr>"
  let ?new = "\<lparr>UNIXtime = 120, logHours = Fin 1, accum1 = []\<rparr>"
  have h1: "?new = readKey ?E (?swap\<lparr>UNIXtime := UNIXtime ?old + interval ?U\<rparr>)"
    by (simp add: sample_env_def sample_uploader_def write_init_def stalled_hours_def)
  have h2: "double_eq (double_sub (logHours ?new) (logHours ?old)) (Fin 0)" by simp
  from zero_elapsed_pair_emits_nothing [OF h1 h2, of 0]
  show ?thesis
    by (auto simp: sample_env_def sample_uploader_def write_init_def stalled_hours_def)
qed

text \<open>
  Claim C5 fails on the code.  The log ends at 120 and its records at 60 and 120 carry
  the same \<^verbatim>\<open>logHours\<close>.  The first write step writes the header, meets the pair with no
  elapsed time and returns with the header in the buffer.  The second write step finds the
  newest record at the last key, skips the loop, and posts the header followed by a line
  feed: the test \<^verbatim>\<open>reqData.available() <= 1\<close> cannot hold once the header is there.
\<close>

theorem header_only_submission:
  "(case handle_write_s (sample_env stalled_hours 120)
           ((sample_uploader (sample_scripts (Fin 5) (Fin 7) (Fin 9)))\<lparr>bulkSend := 1\<rparr>) of
      Return d u1 \<Rightarrow>
        d = 1001 \<and> issued u1 = [] \<and> reqData u1 = ''timestamp,device,sensor,Watts,Volts,Amps''
        \<and> (case handle_write_s (sample_env stalled_hours 120) u1 of
              Return d' u2 \<Rightarrow>
                d' = 1
                \<and> issued u2 = [HTTP_POST ''/readings''
                                 (''timestamp,device,sensor,Watts,Volts,Amps'' @ [CHR 0x0A])
                                 ''text/csv'' checkWrite_s]
            | Crash \<Rightarrow> False)
    | Crash \<Rightarrow> False)"
  by (simp add: sample_eval write_loop_unfold)

text \<open>
  Claim C2 fails on the code, through the same defect.  The uploader has resolved its
  watermark to 86400 and \<^verbatim>\<open>_lastPost\<close> still holds its initial 0.  The log ends at 86520
  and its records at 86460 and 86520 carry the same \<^verbatim>\<open>logHours\<close>.  Two write steps post
  the header alone, as above; no row was assembled, so \<^verbatim>\<open>_lastPost\<close> was never set.  The
  response has code 201, and \<^verbatim>\<open>handle_checkWrite_s\<close> copies \<^verbatim>\<open>_lastPost\<close>: the watermark
  goes from 86400 to 0, which is the timestamp of no row of the batch.
\<close>

theorem created_after_header_only_submission:
  "(case handle_write_s (sample_env stalled_hours 86520)
           ((sample_uploader (sample_scripts (Fin 5) (Fin 7) (Fin 9)))
              \<lparr>bulkSend := 1, lastSent := 86400\<rparr>) of
      Return d u1 \<Rightarrow>
        (case handle_write_s (sample_env stalled_hours 86520) u1 of
           Return d' u2 \<Rightarrow>
             issued u2 = [HTTP_POST ''/readings''
                            (''timestamp,device,sensor,Watts,Volts,Amps'' @ [CHR 0x0A])
                            ''text/csv'' checkWrite_s]
             \<and> lastSent u2 = 86400
             \<and> (case handle_checkWrite_s (sample_env stalled_hours 86520)
                        (u2\<lparr>request := Some (sample_response 4 201 [])\<rparr>) of
                  Return d'' u3 \<Rightarrow> d'' = 1 \<and> lastSent u3 = 0 \<and> state u3 = write_s
                | Crash \<Rightarrow> False)
         | Crash \<Rightarrow> False)
    | Crash \<Rightarrow> False)"
  by (simp add: sample_eval write_loop_unfold handle_checkWrite_s_def)

subsection \<open>Row assembly\<close>

lemma nulls_empty [simp]: "j \<le> i \<Longrightarrow> nulls act i j = []"
  by (simp add: nulls_def)

lemma nulls_step: "i < j \<Longrightarrow> nulls act i j = (if act ! i then '',NULL'' else []) @ nulls act (Suc i) j"
  by (simp add: nulls_def upt_conv_Cons)

lemma null_fill_closed: "null_fill act lm (buf, i) = (buf @ nulls act i lm, max i lm)"
proof (induction act lm "(buf, i)" arbitrary: buf i rule: null_fill.induct)
  case (1 act limit buf unitIndex)
  show ?case
  proof (cases "unitIndex < limit")
    case False
    then show ?thesis by (simp add: null_fill.simps)
  next
    case True
    from "1"[OF True] True show ?thesis
      by (subst null_fill.simps) (simp add: nulls_step[OF True] max_def)
  qed
qed

lemma slots_split:
  assumes "i \<le> k" "k < j"
  shows "slots act cols i j
         = slots act cols i k
           @ (if act ! k then (case cols k of None \<Rightarrow> '',NULL'' | Some c \<Rightarrow> c) else [])
           @ slots act cols (Suc k) j"
proof -
  have "[i..<j] = [i..<k] @ k # [Suc k..<j]"
    using assms by (metis le_add_diff_inverse less_imp_le_nat upt_add_eq_append upt_conv_Cons)
  then show ?thesis by (simp add: slots_def)
qed

lemma slots_nulls:
  assumes "\<forall>k. i \<le> k \<and> k < j \<longrightarrow> cols k = None"
  shows "slots act cols i j = nulls act i j"
  unfolding slots_def nulls_def
  by (rule arg_cong[where f = concat], rule map_cong) (use assms in auto)

lemma nulls_split:
  assumes "i \<le> k" "k < j" "act ! k"
  shows "nulls act i j = nulls act i k @ '',NULL'' @ nulls act (Suc k) j"
proof -
  have "nulls act i j = slots act (\<lambda>k. None) i j" by (simp add: slots_nulls)
  also have "\<dots> = slots act (\<lambda>k. None) i k @ '',NULL'' @ slots act (\<lambda>k. None) (Suc k) j"
    using assms by (subst slots_split[of i k j]) simp_all
  finally show ?thesis by (simp add: slots_nulls)
qed

lemma script_loop_append:
  "script_loop e act device ts old new (xs @ ys) st
   = script_loop e act device ts old new ys (script_loop e act device ts old new xs st)"
proof (induction xs arbitrary: st)
  case Nil
  then show ?case by simp
next
  case (Cons x xs)
  obtain buf sensor i where st: "st = (buf, sensor, i)" by (cases st) auto
  show ?case unfolding st
    by (simp add: Cons Let_def split: prod.splits)
qed

text \<open>One script, in closed form.\<close>

lemma script_loop_one:
  "script_loop e act device ts old new [script] (buf, sensor, i) =
     (let v = run script old new; u = getUnitsEnum script in
      if \<not> double_eq v v then (buf, sensor, i)
      else if sensor \<noteq> name script then
        (buf @ nulls act i (length act) @ row_start ts device (name script) @ nulls act 0 u
             @ '','' @ printf_f e (precision script) v, name script, Suc u)
      else if i \<le> u then (buf @ nulls act i u @ '','' @ printf_f e (precision script) v, sensor, Suc u)
      else (buf, sensor, i))"
  by (auto simp: Let_def null_fill_closed max_def)

declare script_loop.simps [simp del]

lemma script_loop_Cons:
  "script_loop e act device ts old new (x # xs) st
   = script_loop e act device ts old new xs (script_loop e act device ts old new [x] st)"
  using script_loop_append[of e act device ts old new "[x]" xs st]
  by (simp only: append_Cons append_Nil)

lemma slots_two:
  assumes "u1 < u2" "u2 < n" "act ! u1" "act ! u2"
  shows "slots act [u1 \<mapsto> c1, u2 \<mapsto> c2] 0 n
         = nulls act 0 u1 @ c1 @ nulls act (Suc u1) u2 @ c2 @ nulls act (Suc u2) n"
proof -
  let ?cols = "[u1 \<mapsto> c1, u2 \<mapsto> c2]"
  have e1: "slots act ?cols 0 n = slots act ?cols 0 u2 @ c2 @ slots act ?cols (Suc u2) n"
    using assms by (subst slots_split[of 0 u2 n]) simp_all
  have e2: "slots act ?cols 0 u2 = slots act ?cols 0 u1 @ c1 @ slots act ?cols (Suc u1) u2"
    using assms by (subst slots_split[of 0 u1 u2]) simp_all
  have e3: "slots act ?cols 0 u1 = nulls act 0 u1"
    using assms by (intro slots_nulls) auto
  have e4: "slots act ?cols (Suc u1) u2 = nulls act (Suc u1) u2"
    using assms by (intro slots_nulls) auto
  have e5: "slots act ?cols (Suc u2) n = nulls act (Suc u2) n"
    using assms by (intro slots_nulls) auto
  show ?thesis
    by (simp only: e1 e2 e3 e4 e5 append_assoc)
qed

lemma slots_one:
  assumes "u1 < n" "act ! u1"
  shows "slots act [u1 \<mapsto> c1] 0 n = nulls act 0 u1 @ c1 @ nulls act (Suc u1) n"
proof -
  let ?cols = "[u1 \<mapsto> c1]"
  have e1: "slots act ?cols 0 n = slots act ?cols 0 u1 @ c1 @ slots act ?cols (Suc u1) n"
    using assms by (subst slots_split[of 0 u1 n]) simp_all
  have e2: "slots act ?cols 0 u1 = nulls act 0 u1"
    by (intro slots_nulls) auto
  have e3: "slots act ?cols (Suc u1) n = nulls act (Suc u1) n"
    by (intro slots_nulls) auto
  show ?thesis
    by (simp only: e1 e2 e3)
qed

text \<open>The two scripts of sensor A, started on an open row of A.\<close>

lemma sensor_A_part:
  assumes names: "name sA1 = A" "name sA2 = A"
    and units: "getUnitsEnum sA1 = u1" "getUnitsEnum sA2 = u2" "u1 < u2" "u2 < length act"
    and active: "act ! u1" "act ! u2"
  shows "\<exists>pre i. script_loop e act device ts old new [sA1, sA2] (b0, A, 0) = (b0 @ pre, A, i)
           \<and> pre @ nulls act i (length act)
               = slots act [u1 \<mapsto> cell e (precision sA1) (run sA1 old new),
                            u2 \<mapsto> cell e (precision sA2) (run sA2 old new)] 0 (length act)"
proof -
  let ?n = "length act"
  let ?a1 = "run sA1 old new" and ?a2 = "run sA2 old new"
  have s: "script_loop e act device ts old new [sA1, sA2] (b0, A, 0)
           = script_loop e act device ts old new [sA2]
               (script_loop e act device ts old new [sA1] (b0, A, 0))"
    by (subst script_loop_Cons) (rule refl)
  have n1: "nulls act 0 ?n = nulls act 0 u1 @ '',NULL'' @ nulls act (Suc u1) u2 @ '',NULL''
                               @ nulls act (Suc u2) ?n"
    using units active nulls_split[of 0 u2 ?n act] nulls_split[of 0 u1 u2 act] by simp
  have n2: "nulls act 0 u2 = nulls act 0 u1 @ '',NULL'' @ nulls act (Suc u1) u2"
    using units active nulls_split[of 0 u1 u2 act] by simp
  have n3: "nulls act (Suc u1) ?n = nulls act (Suc u1) u2 @ '',NULL'' @ nulls act (Suc u2) ?n"
    using units active nulls_split[of "Suc u1" u2 ?n act] by simp
  show ?thesis
  proof (cases "double_eq ?a1 ?a1")
    case a1: True
    show ?thesis
    proof (cases "double_eq ?a2 ?a2")
      case a2: True
      with a1 names units active show ?thesis
        unfolding s by (simp add: script_loop_one slots_two cell_def)
    next
      case a2: False
      with a1 names units active show ?thesis
        unfolding s by (simp add: script_loop_one slots_two cell_def n3)
    qed
  next
    case a1: False
    show ?thesis
    proof (cases "double_eq ?a2 ?a2")
      case a2: True
      with a1 names units active show ?thesis
        unfolding s by (simp add: script_loop_one slots_two cell_def n2)
    next
      case a2: False
      with a1 names units active show ?thesis
        unfolding s by (simp add: script_loop_one slots_two cell_def n1)
    qed
  qed
qed

lemma assemble_two_sensors:
  assumes scripts: "outputs u = [sA1, sA2, sB]"
    and names: "name sA1 = A" "name sA2 = A" "name sB = B" "A \<noteq> B"
    and units: "getUnitsEnum sA1 = u1" "getUnitsEnum sA2 = u2" "getUnitsEnum sB = u1"
      "u1 < u2" "u2 < length (unit_active u)"
    and active: "unit_active u ! u1" "unit_active u ! u2"
  shows "assemble_rows e u old new buf =
           Some (buf
             @ csv_row (unit_active u) (datef e (UNIXtime old)) (resolveDeviceName e u) A
                 [u1 \<mapsto> cell e (precision sA1) (run sA1 old new),
                  u2 \<mapsto> cell e (precision sA2) (run sA2 old new)]
             @ (if double_eq (run sB old new) (run sB old new)
                then csv_row (unit_active u) (datef e (UNIXtime old)) (resolveDeviceName e u) B
                       [u1 \<mapsto> cell e (precision sB) (run sB old new)]
                else []))"
proof -
  let ?act = "unit_active u" and ?ts = "datef e (UNIXtime old)" and ?dev = "resolveDeviceName e u"
  let ?n = "length ?act"
  let ?b0 = "buf @ row_start ?ts ?dev A"
  let ?colsA = "[u1 \<mapsto> cell e (precision sA1) (run sA1 old new),
                 u2 \<mapsto> cell e (precision sA2) (run sA2 old new)]"
  from sensor_A_part[OF names(1,2) units(1,2,4,5) active, of e ?dev ?ts old new ?b0]
  obtain pre i where
    pa: "script_loop e ?act ?dev ?ts old new [sA1, sA2] (?b0, A, 0) = (?b0 @ pre, A, i)"
    and pn: "pre @ nulls ?act i ?n = slots ?act ?colsA 0 ?n"
    by blast
  have s: "script_loop e ?act ?dev ?ts old new [sA1, sA2, sB] (?b0, A, 0)
           = script_loop e ?act ?dev ?ts old new [sB] (?b0 @ pre, A, i)"
    using script_loop_append[of e ?act ?dev ?ts old new "[sA1, sA2]" "[sB]" "(?b0, A, 0)"]
    by (simp only: append_Cons append_Nil pa)
  have u1n: "u1 < ?n" using units by simp
  show ?thesis
  proof (cases "double_eq (run sB old new) (run sB old new)")
    case True
    have "assemble_rows e u old new buf
          = Some (?b0 @ pre @ nulls ?act i ?n @ row_start ?ts ?dev B @ nulls ?act 0 u1
                  @ '','' @ printf_f e (precision sB) (run sB old new) @ nulls ?act (Suc u1) ?n)"
      using scripts names units True
      by (simp add: assemble_rows_def Let_def s script_loop_one null_fill_closed)
    also have "?b0 @ pre @ nulls ?act i ?n @ row_start ?ts ?dev B @ nulls ?act 0 u1
                  @ '','' @ printf_f e (precision sB) (run sB old new) @ nulls ?act (Suc u1) ?n
               = buf @ csv_row ?act ?ts ?dev A ?colsA
                 @ csv_row ?act ?ts ?dev B [u1 \<mapsto> cell e (precision sB) (run sB old new)]"
      using pn True by (simp add: csv_row_def slots_one[OF u1n active(1)] cell_def)
    finally show ?thesis using True by simp
  next
    case False
    have "assemble_rows e u old new buf = Some (?b0 @ pre @ nulls ?act i ?n)"
      using scripts names units False
      by (simp add: assemble_rows_def Let_def s script_loop_one null_fill_closed)
    also have "?b0 @ pre @ nulls ?act i ?n = buf @ csv_row ?act ?ts ?dev A ?colsA"
      using pn by (simp add: csv_row_def)
    finally show ?thesis using False by simp
  qed
qed

text \<open>
  Claim C4, as the code has it.  The script list is A with unit \<open>u1\<close>, A with unit \<open>u2\<close>,
  B with unit \<open>u1\<close>, where \<open>u1 < u2\<close> and both units are active; any further unit may be
  active as well.  For a record pair with elapsed hours other than zero the iteration
  appends the row of A, with the value of each script in its slot, \<^verbatim>\<open>,NULL\<close> in the slot
  of a script that evaluates to the not-a-number sentinel and in every other active slot;
  the row of A is written whatever its scripts evaluate to.  The row of B follows, with
  its value in slot \<open>u1\<close> and \<^verbatim>\<open>,NULL\<close> in the other active slots, when the script of B
  evaluates to a number; when it evaluates to the sentinel, no row of B is written.
\<close>

theorem two_sensor_rows:
  assumes scripts: "outputs u = [sA1, sA2, sB]"
    and names: "name sA1 = A" "name sA2 = A" "name sB = B" "A \<noteq> B"
    and units: "getUnitsEnum sA1 = u1" "getUnitsEnum sA2 = u2" "getUnitsEnum sB = u1"
      "u1 < u2" "u2 < length (unit_active u)"
    and active: "unit_active u ! u1" "unit_active u ! u2"
    and new: "new = readKey e (swap\<lparr>UNIXtime := UNIXtime old + interval u\<rparr>)"
    and elapsed: "\<not> double_eq (double_sub (logHours new) (logHours old)) (Fin 0)"
  shows "write_body e u (swap, old) =
           Inr (u\<lparr>records := Some (old, new),
                  reqData := reqData u
                    @ csv_row (unit_active u) (datef e (UNIXtime old)) (resolveDeviceName e u) A
                        [u1 \<mapsto> cell e (precision sA1) (run sA1 old new),
                         u2 \<mapsto> cell e (precision sA2) (run sA2 old new)]
                    @ (if double_eq (run sB old new) (run sB old new)
                       then csv_row (unit_active u) (datef e (UNIXtime old))
                              (resolveDeviceName e u) B
                              [u1 \<mapsto> cell e (precision sB) (run sB old new)]
                       else []),
                  lastPost := UNIXtime old\<rparr>)"
proof -
  have a: "assemble_rows e (u\<lparr>records := Some (old, new)\<rparr>) old new (reqData u)
        = Some (reqData u
                    @ csv_row (unit_active u) (datef e (UNIXtime old)) (resolveDeviceName e u) A
                        [u1 \<mapsto> cell e (precision sA1) (run sA1 old new),
                         u2 \<mapsto> cell e (precision sA2) (run sA2 old new)]
                    @ (if double_eq (run sB old new) (run sB old new)
                       then csv_row (unit_active u) (datef e (UNIXtime old))
                              (resolveDeviceName e u) B
                              [u1 \<mapsto> cell e (precision sB) (run sB old new)]
                       else []))"
    using assemble_two_sensors[OF scripts names units active, of e old new "reqData u"]
    by (simp only: assemble_rows_frame)
  show ?thesis
    unfolding write_body_def Let_def fst_conv snd_conv new[symmetric]
    using elapsed a by simp
qed

theorem two_sensor_rows_witness:
  "write_body (sample_env running_hours 180)
     (write_init (sample_env running_hours 180)
        (sample_uploader (sample_scripts (Fin 5) NaN (Fin 9))))
     (\<lparr>UNIXtime = 0, logHours = Fin 0, accum1 = []\<rparr>,
      \<lparr>UNIXtime = 60, logHours = Fin (1 / 60), accum1 = []\<rparr>)
   = Inr ((write_init (sample_env running_hours 180)
            (sample_uploader (sample_scripts (Fin 5) NaN (Fin 9))))
          \<lparr>records := Some (\<lparr>UNIXtime = 60, logHours = Fin (1 / 60), accum1 = []\<rparr>,
                             \<lparr>UNIXtime = 120, logHours = Fin (1 / 30), accum1 = []\<rparr>),
            reqData := ''timestamp,device,sensor,Watts,Volts,Amps\<newline>1970-01-01T00:01:00Z,iota,A,5,NULL,NULL\<newline>1970-01-01T00:01:00Z,iota,B,9,NULL,NULL'',
            lastPost := 60\<rparr>)"
proof -
  let ?E = "sample_env running_hours 180"
  let ?U = "write_init ?E (sample_uploader (sample_scripts (Fin 5) NaN (Fin 9)))"
  let ?swap = "\<lparr>UNIXtime = 0, logHours = Fin 0, accum1 = []\<rparr>"
  let ?old = "\<lparr>UNIXtime = 60, logHours = Fin (1 / 60), accum1 = []\<rparr>"
  let ?new = "\<lparr>UNIXtime = 120, logHours = Fin (1 / 30), accum1 = []\<rparr>"
  let ?sA1 = "sample_script ''A'' 0 (Fin 5)"
  let ?sA2 = "sample_script ''A'' 1 NaN"
  let ?sB = "sample_script ''B'' 0 (Fin 9)"
  have scripts: "outputs ?U = [?sA1, ?sA2, ?sB]"
    by (simp add: write_init_def sample_uploader_def sample_scripts_def Let_def)
  have names: "name ?sA1 = ''A''" "name ?sA2 = ''A''" "name ?sB = ''B''" "''A'' \<noteq> ''B''"
    by (simp_all add: sample_script_def)
  have units: "getUnitsEnum ?sA1 = 0" "getUnitsEnum ?sA2 = 1" "getUnitsEnum ?sB = 0"
    "(0::nat) < 1" "1 < length (unit_active ?U)"
    by (simp_all add: sample_script_def write_init_def sample_uploader_def Let_def)
  have active: "unit_active ?U ! 0" "unit_active ?U ! 1"
    by (simp_all add: write_init_def sample_uploader_def Let_def)
  have new: "?new = readKey ?E (?swap\<lparr>UNIXtime := UNIXtime ?old + interval ?U\<rparr>)"
    by (simp add: write_init_def sample_uploader_def sample_env_def running_hours_def Let_def)
  have elapsed: "\<not> double_eq (double_sub (logHours ?new) (logHours ?old)) (Fin 0)"
    by simp
  from two_sensor_rows [OF scripts names units active new elapsed]
  show ?thesis
    by (simp add: csv_row_def slots_def cell_def sample_eval)
qed

text \<open>
  Claim C4 as stated fails when the script of B evaluates to the not-a-number sentinel:
  the iteration writes the row of A and no row of B.
\<close>

theorem no_row_for_nan_sensor:
  "write_body (sample_env running_hours 180)
     (write_init (sample_env running_hours 180)
        (sample_uploader (sample_scripts (Fin 5) (Fin 7) NaN)))
     (\<lparr>UNIXtime = 0, logHours = Fin 0, accum1 = []\<rparr>,
      \<lparr>UNIXtime = 60, logHours = Fin (1 / 60), accum1 = []\<rparr>)
   = Inr ((write_init (sample_env running_hours 180)
            (sample_uploader (sample_scripts (Fin 5) (Fin 7) NaN)))
          \<lparr>records := Some (\<lparr>UNIXtime = 60, logHours = Fin (1 / 60), accum1 = []\<rparr>,
                             \<lparr>UNIXtime = 120, logHours = Fin (1 / 30), accum1 = []\<rparr>),
            reqData := ''timestamp,device,sensor,Watts,Volts,Amps\<newline>1970-01-01T00:01:00Z,iota,A,5,7,NULL'',
            lastPost := 60\<rparr>)"
  by (simp add: sample_eval)

subsection \<open>The rows of a write step\<close>





lemma pair_text_frame [simp]:
  "pair_text e (u\<lparr>records := r, reqData := b, lastPost := p\<rparr>) = pair_text e u"
  by (simp add: pair_text_def resolveDeviceName_def fun_eq_iff)





subsection \<open>Scanning numbers\<close>

lemma digits_hd: "digits ds \<Longrightarrow> \<exists>c r. ds = c # r \<and> isdigit c"
  by (cases ds) (auto simp: digits_def)

lemma isdigit_not_space: "isdigit c \<Longrightarrow> \<not> isspace c"
  by (auto simp: isdigit_def isspace_def)

lemma isdigit_not_sign: "isdigit c \<Longrightarrow> c \<noteq> CHR ''-'' \<and> c \<noteq> CHR ''+''"
  by (auto simp: isdigit_def)

lemma takeWhile_digits:
  "digits ds \<Longrightarrow> no_digit_ahead r \<Longrightarrow> takeWhile isdigit (ds @ r) = ds"
  by (cases r) (auto simp: digits_def no_digit_ahead_def list_all_iff takeWhile_append2 intro: takeWhile_eq_all_conv[THEN iffD2])

lemma dropWhile_digits:
  "digits ds \<Longrightarrow> no_digit_ahead r \<Longrightarrow> dropWhile isdigit (ds @ r) = r"
  by (cases r) (auto simp: digits_def no_digit_ahead_def list_all_iff dropWhile_append2)

lemma dropWhile_space_digits [simp]:
  "digits ds \<Longrightarrow> dropWhile isspace (ds @ r) = ds @ r"
  using digits_hd[of ds] by (auto simp: isdigit_not_space)

lemma dec_nonneg: "list_all isdigit ds \<Longrightarrow> 0 \<le> dec ds"
proof -
  have "list_all isdigit ds \<Longrightarrow> 0 \<le> a
        \<Longrightarrow> 0 \<le> foldl (\<lambda>a c. 10 * a + digit_val c) a ds" for a
  proof (induction ds arbitrary: a)
    case Nil
    then show ?case by simp
  next
    case (Cons c ds)
    from Cons.prems have "0 \<le> digit_val c" by (simp add: isdigit_def digit_val_def)
    with Cons.prems have "0 \<le> 10 * a + digit_val c" by simp
    with Cons show ?case by simp
  qed
  then show "list_all isdigit ds \<Longrightarrow> 0 \<le> dec ds" by (simp add: dec_def)
qed

lemma int_digits_digits [simp]: "int_digits ds \<Longrightarrow> digits ds"
  by (simp add: int_digits_def)

lemma store_int_digits: "int_digits ds \<Longrightarrow> store_int ovf (dec ds) = dec ds"
  using dec_nonneg[of ds] by (simp add: store_int_def int_digits_def digits_def)

lemma scan_d_digits:
  assumes "int_digits ds" "no_digit_ahead r"
  shows "scan_d ovf (ds @ r) = Some (dec ds, r)"
proof -
  have dg: "digits ds" using assms(1) by simp
  from digits_hd[OF dg] obtain c t where ds: "ds = c # t" and c: "isdigit c" by blast
  have s1: "dropWhile isspace (ds @ r) = ds @ r" using dg by simp
  have "ds \<noteq> []" using ds by simp
  with assms c ds show ?thesis
    unfolding scan_d_def s1 Let_def
    using takeWhile_digits[OF dg assms(2)] dropWhile_digits[OF dg assms(2)]
      isdigit_not_sign[OF c] store_int_digits[OF assms(1), of ovf]
    by simp
qed

subsection \<open>Parsing the textual forms\<close>

lemma scan_D:
  "int_digits ds \<Longrightarrow> no_digit_ahead r
   \<Longrightarrow> scan ovf (ConvD # fs) (ds @ r) = IntV (dec ds) # scan ovf fs r"
  by (simp add: scan_d_digits)

lemma scan_D_end:
  "int_digits ds \<Longrightarrow> scan ovf (ConvD # fs) ds = IntV (dec ds) # scan ovf fs []"
  using scan_D[of ds "[]" ovf fs] by (simp add: no_digit_ahead_def)

lemma scan_D_T: "scan ovf (ConvD # fs) (CHR ''T'' # r) = []"
  by (simp add: scan_d_def isspace_def isdigit_def)

lemma no_digit_ahead_simps [simp]:
  "no_digit_ahead []"
  "no_digit_ahead (CHR ''-'' # r)" "no_digit_ahead (CHR ''+'' # r)" "no_digit_ahead (CHR '':'' # r)"
  "no_digit_ahead (CHR '' '' # r)" "no_digit_ahead (CHR ''T'' # r)" "no_digit_ahead (CHR ''Z'' # r)"
  by (simp_all add: no_digit_ahead_def isdigit_def)

lemma space_simps [simp]: "isspace CHR '' ''" "\<not> isspace CHR ''T''"
  by (simp_all add: isspace_def)

lemma formats:
  "parse_format ''%d-%d-%d %d:%d:%d%c%d:%d''
     = [ConvD, Lit CHR ''-'', ConvD, Lit CHR ''-'', ConvD, White, ConvD, Lit CHR '':'', ConvD,
        Lit CHR '':'', ConvD, ConvC, ConvD, Lit CHR '':'', ConvD]"
  "parse_format ''%d-%d-%d %d:%d:%d%c%d''
     = [ConvD, Lit CHR ''-'', ConvD, Lit CHR ''-'', ConvD, White, ConvD, Lit CHR '':'', ConvD,
        Lit CHR '':'', ConvD, ConvC, ConvD]"
  "parse_format ''%d-%d-%dT%d:%d:%dZ''
     = [ConvD, Lit CHR ''-'', ConvD, Lit CHR ''-'', ConvD, Lit CHR ''T'', ConvD, Lit CHR '':'',
        ConvD, Lit CHR '':'', ConvD, Lit CHR ''Z'']"
  "parse_format ''%d-%d-%dT%d:%d:%d''
     = [ConvD, Lit CHR ''-'', ConvD, Lit CHR ''-'', ConvD, Lit CHR ''T'', ConvD, Lit CHR '':'',
        ConvD, Lit CHR '':'', ConvD]"
  "parse_format ''%d-%d-%d %d:%d:%d''
     = [ConvD, Lit CHR ''-'', ConvD, Lit CHR ''-'', ConvD, White, ConvD, Lit CHR '':'', ConvD,
        Lit CHR '':'', ConvD]"
  by (simp_all add: isspace_def)

declare parse_format.simps [simp del]

declare scan.simps(2) [simp del]

lemmas scan_text = sscanf_def formats date_text_def time_text_def scan_D scan_D_end scan_D_T

lemma parse_offset_hm:
  assumes "int_digits Y" "int_digits M" "int_digits D" "int_digits h" "int_digits m" "int_digits s" "int_digits zh" "int_digits zm"
    and "sign = CHR ''+'' \<or> sign = CHR ''-''"
  shows "parseTimestamp ovf U (text_offset_hm Y M D h m s sign zh zm)
         = U (dec Y) (dec M) (dec D) (dec h) (dec m) (dec s)
           - word_of_int (zone_seconds sign (dec zh) (dec zm))"
proof -
  have nd: "\<And>r. no_digit_ahead (sign # r)" using assms(9) by auto
  have "sscanf ovf (text_offset_hm Y M D h m s sign zh zm) ''%d-%d-%d %d:%d:%d%c%d:%d''
        = [IntV (dec Y), IntV (dec M), IntV (dec D), IntV (dec h), IntV (dec m), IntV (dec s),
           ChrV sign, IntV (dec zh), IntV (dec zm)]"
    using assms(1-8) by (simp add: scan_text text_offset_hm_def nd)
  then show ?thesis
    by (simp add: parseTimestamp_def fields_time_def int_at_def chr_at_def zone_seconds_def Let_def)
qed

lemma parse_offset_h:
  assumes "int_digits Y" "int_digits M" "int_digits D" "int_digits h" "int_digits m" "int_digits s" "int_digits zh"
    and "sign = CHR ''+'' \<or> sign = CHR ''-''"
  shows "parseTimestamp ovf U (text_offset_h Y M D h m s sign zh)
         = U (dec Y) (dec M) (dec D) (dec h) (dec m) (dec s)
           - word_of_int (zone_seconds sign (dec zh) 0)"
proof -
  have nd: "\<And>r. no_digit_ahead (sign # r)" using assms(8) by auto
  have "sscanf ovf (text_offset_h Y M D h m s sign zh) ''%d-%d-%d %d:%d:%d%c%d:%d''
        = [IntV (dec Y), IntV (dec M), IntV (dec D), IntV (dec h), IntV (dec m), IntV (dec s),
           ChrV sign, IntV (dec zh)]"
    using assms(1-7) by (simp add: scan_text text_offset_h_def nd)
  moreover have "sscanf ovf (text_offset_h Y M D h m s sign zh) ''%d-%d-%d %d:%d:%d%c%d''
        = [IntV (dec Y), IntV (dec M), IntV (dec D), IntV (dec h), IntV (dec m), IntV (dec s),
           ChrV sign, IntV (dec zh)]"
    using assms(1-7) by (simp add: scan_text text_offset_h_def nd)
  ultimately show ?thesis
    by (simp add: parseTimestamp_def fields_time_def int_at_def chr_at_def zone_seconds_def Let_def)
qed

lemma parse_iso_tail:
  assumes "int_digits Y" "int_digits M" "int_digits D" "int_digits h" "int_digits m" "int_digits s"
    and "no_digit_ahead tail"
  shows "parseTimestamp ovf U (date_text Y M D @ ''T'' @ time_text h m s @ tail)
         = U (dec Y) (dec M) (dec D) (dec h) (dec m) (dec s)"
proof -
  let ?x = "date_text Y M D @ ''T'' @ time_text h m s @ tail"
  have 1: "sscanf ovf ?x ''%d-%d-%d %d:%d:%d%c%d:%d'' = [IntV (dec Y), IntV (dec M), IntV (dec D)]"
    using assms by (simp add: scan_text)
  have 2: "sscanf ovf ?x ''%d-%d-%d %d:%d:%d%c%d'' = [IntV (dec Y), IntV (dec M), IntV (dec D)]"
    using assms by (simp add: scan_text)
  have 3: "take 6 (sscanf ovf ?x ''%d-%d-%dT%d:%d:%dZ'')
             = [IntV (dec Y), IntV (dec M), IntV (dec D), IntV (dec h), IntV (dec m), IntV (dec s)]
           \<and> length (sscanf ovf ?x ''%d-%d-%dT%d:%d:%dZ'') = 6"
    using assms by (cases tail) (simp_all add: scan_text)
  then have 4: "sscanf ovf ?x ''%d-%d-%dT%d:%d:%dZ''
             = [IntV (dec Y), IntV (dec M), IntV (dec D), IntV (dec h), IntV (dec m), IntV (dec s)]"
    by (metis order_refl take_all)
  show ?thesis
    unfolding parseTimestamp_def Let_def 1 2 4
    by (simp add: fields_time_def int_at_def)
qed

lemma parse_simple:
  assumes "int_digits Y" "int_digits M" "int_digits D" "int_digits h" "int_digits m" "int_digits s"
  shows "parseTimestamp ovf U (text_simple Y M D h m s)
         = U (dec Y) (dec M) (dec D) (dec h) (dec m) (dec s)"
proof -
  let ?x = "text_simple Y M D h m s"
  let ?r = "[IntV (dec Y), IntV (dec M), IntV (dec D), IntV (dec h), IntV (dec m), IntV (dec s)]"
  have 1: "sscanf ovf ?x ''%d-%d-%d %d:%d:%d%c%d:%d'' = ?r"
    using assms by (simp add: scan_text text_simple_def)
  have 2: "sscanf ovf ?x ''%d-%d-%d %d:%d:%d%c%d'' = ?r"
    using assms by (simp add: scan_text text_simple_def)
  have 3: "sscanf ovf ?x ''%d-%d-%dT%d:%d:%dZ'' = [IntV (dec Y), IntV (dec M), IntV (dec D)]"
    using assms by (simp add: scan_text text_simple_def)
  have 4: "sscanf ovf ?x ''%d-%d-%dT%d:%d:%d'' = [IntV (dec Y), IntV (dec M), IntV (dec D)]"
    using assms by (simp add: scan_text text_simple_def)
  have 5: "sscanf ovf ?x ''%d-%d-%d %d:%d:%d'' = ?r"
    using assms by (simp add: scan_text text_simple_def)
  show ?thesis
    unfolding parseTimestamp_def Let_def 1 2 3 4 5
    by (simp add: fields_time_def int_at_def)
qed

lemma parse_no_number:
  assumes "scan_d ovf x = None"
  shows "parseTimestamp ovf U x = 0"
  using assms by (simp add: parseTimestamp_def sscanf_def formats Let_def scan.simps(2))

lemma days_to_year_unfold:
  "days_to_year n = (if n = 0 then 0 else days_to_year (n - 1) + year_days (1970 + (n - 1)))"
  by (cases n) simp_all

lemma days_to_month_unfold:
  "days_to_month y k = (if k = 0 then 0 else days_to_month y (k - 1) + month_days y k)"
  by (cases k) simp_all

lemma sample_instant: "Unixtime_utc 2023 10 15 14 30 25 = 1697380225"
  by (simp add: Unixtime_utc_def days_to_year_unfold days_to_month_unfold year_days_def
        month_days_def is_leap_def)

lemma sample_fields:
  "int_digits ''2023''" "int_digits ''10''" "int_digits ''15''" "int_digits ''14''"
  "int_digits ''30''" "int_digits ''25''"
  by (simp_all add: int_digits_def digits_def isdigit_def dec_def digit_val_def)

lemma sample_values:
  "dec ''2023'' = 2023" "dec ''10'' = 10" "dec ''15'' = 15" "dec ''14'' = 14"
  "dec ''30'' = 30" "dec ''25'' = 25"
  by (simp_all add: dec_def digit_val_def)

text \<open>
  Claim C8 fails on the code.  The text \<^verbatim>\<open>2023-10-15T14:30:25+10:30\<close> carries an
  explicit signed offset.  The first two patterns stop at the \<^verbatim>\<open>T\<close>.  The third pattern
  converts its six fields; the literal \<^verbatim>\<open>Z\<close> that follows the last conversion cannot
  change the count, so the count is 6 and the text is accepted with the offset left
  unread: the result is \<^verbatim>\<open>Unixtime\<close> of the naive fields, the same as for the text with
  the \<^verbatim>\<open>Z\<close> suffix.  For the same fields and offset separated by a space, the first
  pattern subtracts the 37800 seconds of the offset.  This holds for every \<^verbatim>\<open>Unixtime\<close>
  and every treatment of numbers beyond the range of \<^verbatim>\<open>int\<close>.
\<close>

theorem iso_offset_not_subtracted:
  "parseTimestamp ovf U ''2023-10-15T14:30:25+10:30'' = U 2023 10 15 14 30 25
   \<and> parseTimestamp ovf U ''2023-10-15T14:30:25Z'' = U 2023 10 15 14 30 25
   \<and> parseTimestamp ovf U ''2023-10-15 14:30:25+10:30'' = U 2023 10 15 14 30 25 - 37800"
proof -
  note d = sample_fields and v = sample_values
  have "parseTimestamp ovf U ''2023-10-15T14:30:25+10:30'' = U 2023 10 15 14 30 25"
    using parse_iso_tail[OF d, where tail = "''+10:30''" and U = U and ovf = ovf]
    by (simp add: date_text_def time_text_def v)
  moreover have "parseTimestamp ovf U ''2023-10-15T14:30:25Z'' = U 2023 10 15 14 30 25"
    using parse_iso_tail[OF d, where tail = "''Z''" and U = U and ovf = ovf]
    by (simp add: date_text_def time_text_def v)
  moreover have "parseTimestamp ovf U ''2023-10-15 14:30:25+10:30''
                 = U 2023 10 15 14 30 25 - 37800"
    using parse_offset_hm[OF d d(2,5), where sign = "CHR ''+''" and U = U and ovf = ovf]
    by (simp add: text_offset_hm_def date_text_def time_text_def v zone_seconds_def)
  ultimately show ?thesis by blast
qed

subsection \<open>The timestamp codec\<close>

lemma dec_snoc: "dec (xs @ [c]) = 10 * dec xs + digit_val c"
  by (simp add: dec_def)

lemma show_nat_digits: "digits (show_nat n)"
proof (induction n rule: show_nat.induct)
  case (1 n)
  show ?case
  proof (cases "n < 10")
    case True
    then show ?thesis
      by (subst show_nat.simps) (simp add: digits_def digit_char_inv)
  next
    case False
    have "n mod 10 < 10" by simp
    with "1"[OF False] False show ?thesis
      by (subst show_nat.simps) (simp add: digits_def digit_char_inv)
  qed
qed

lemma dec_show_nat: "dec (show_nat n) = int n"
proof (induction n rule: show_nat.induct)
  case (1 n)
  show ?case
  proof (cases "n < 10")
    case True
    then show ?thesis
      by (subst show_nat.simps) (simp add: dec_def digit_char_inv)
  next
    case False
    have "n mod 10 < 10" by simp
    then have "digit_val (digit_char (n mod 10)) = int (n mod 10)"
      using digit_char_inv by blast
    with "1"[OF False] False show ?thesis
      by (subst show_nat.simps) (simp add: dec_snoc zmod_int zdiv_int)
  qed
qed

lemma dec_zeros: "dec (replicate k CHR ''0'' @ ds) = dec ds"
proof -
  have "foldl (\<lambda>a c. 10 * a + digit_val c) 0 (replicate k CHR ''0'') = 0"
    by (induction k) (simp_all add: digit_val_def)
  then show ?thesis by (simp add: dec_def)
qed

lemma zero_pad_digits: "digits (zero_pad w n)"
  using show_nat_digits[of n]
  by (auto simp: zero_pad_def digits_def list_all_iff isdigit_def)

lemma dec_zero_pad: "dec (zero_pad w n) = int n"
  by (simp add: zero_pad_def dec_zeros dec_show_nat)

lemma year_of_days_sum:
  "year_of_days n d = (n', r) \<Longrightarrow> days_to_year n' + r = days_to_year n + d"
proof (induction n d rule: year_of_days.induct)
  case (1 n d)
  show ?case
  proof (cases "d < year_days (1970 + n)")
    case True
    with "1.prems" show ?thesis by (simp add: year_of_days.simps)
  next
    case False
    with "1.prems" have "year_of_days (Suc n) (d - year_days (1970 + n)) = (n', r)"
      by (subst (asm) year_of_days.simps) simp
    from "1.IH"[OF False this] False show ?thesis by simp
  qed
qed

lemma month_of_days_sum:
  "month_of_days y k d = (k', r) \<Longrightarrow> days_to_month y k' + r = days_to_month y k + d"
proof (induction y k d rule: month_of_days.induct)
  case (1 y k d)
  show ?case
  proof (cases "d < month_days y (Suc k)")
    case True
    with "1.prems" show ?thesis by (simp add: month_of_days.simps)
  next
    case False
    with "1.prems" have "month_of_days y (Suc k) (d - month_days y (Suc k)) = (k', r)"
      by (subst (asm) month_of_days.simps) simp
    from "1.IH"[OF False this] False show ?thesis by simp
  qed
qed

lemma clock_sum: "((secs div 3600) * 60 + secs mod 3600 div 60) * 60 + secs mod 60 = (secs::nat)"
proof -
  define X where "X = secs div 3600"
  define Y where "Y = secs mod 3600"
  define Z where "Z = Y div 60"
  define W where "W = secs mod 60"
  have a: "secs = 3600 * X + Y" by (simp add: X_def Y_def)
  have c: "Y mod 60 = W" unfolding Y_def W_def by (rule mod_mod_cancel) simp
  have b: "Y = 60 * Z + W" unfolding Z_def c[symmetric] by simp
  have "(X * 60 + Z) * 60 + W = secs" using a b by (simp add: algebra_simps)
  then show ?thesis by (simp add: X_def Y_def Z_def W_def)
qed

lemma zero_pad_int_digits: "n \<le> 2147483647 \<Longrightarrow> int_digits (zero_pad w n)"
  by (simp add: int_digits_def zero_pad_digits dec_zero_pad)

lemma days_to_year_ge: "n \<le> days_to_year n"
  by (induction n) (simp_all add: year_days_def)

lemma days_to_month_ge: "k \<le> days_to_month y k"
  by (induction k) (simp_all add: month_days_def)

lemma parse_datef_utc: "parseTimestamp ovf Unixtime_utc (datef_utc t) = t"
proof -
  let ?days = "unat t div 86400" and ?secs = "unat t mod 86400"
  obtain n doy where y: "year_of_days 0 ?days = (n, doy)" by fastforce
  obtain k dom where m: "month_of_days (1970 + n) 0 doy = (k, dom)" by fastforce
  let ?hh = "?secs div 3600" and ?mm = "?secs mod 3600 div 60" and ?ss = "?secs mod 60"
  from year_of_days_sum[OF y] have d1: "days_to_year n + doy = ?days" by simp
  from month_of_days_sum[OF m] have d2: "days_to_month (1970 + n) k + dom = doy" by simp
  have "unat t < 2 ^ LENGTH(32)" by (rule unsigned_less)
  then have "unat t < 4294967296" by simp
  then have "?days < 49711" by (intro less_mult_imp_div_less) simp
  with d1 d2 days_to_year_ge[of n] days_to_month_ge[of k "1970 + n"]
  have small: "n < 49711" "k < 49711" "dom < 49711" by linarith+
  have "?secs < 86400" by simp
  then have clock: "?hh < 86400" "?mm < 86400" "?ss < 86400"
    by (meson div_le_dividend le_less_trans mod_less_eq_dividend)+
  have f: "int_digits (zero_pad 4 (1970 + n))" "int_digits (zero_pad 2 (Suc k))"
    "int_digits (zero_pad 2 (Suc dom))" "int_digits (zero_pad 2 ?hh)"
    "int_digits (zero_pad 2 ?mm)" "int_digits (zero_pad 2 ?ss)"
    using small clock by (simp_all add: zero_pad_int_digits)
  have shape: "datef_utc t
              = date_text (zero_pad 4 (1970 + n)) (zero_pad 2 (Suc k)) (zero_pad 2 (Suc dom))
                @ ''T'' @ time_text (zero_pad 2 ?hh) (zero_pad 2 ?mm) (zero_pad 2 ?ss) @ ''Z''"
    by (simp add: datef_utc_def y m Let_def date_text_def time_text_def)
  have p: "parseTimestamp ovf Unixtime_utc (datef_utc t)
           = Unixtime_utc (int (1970 + n)) (int (Suc k)) (int (Suc dom))
               (int ?hh) (int ?mm) (int ?ss)"
    unfolding shape
    using parse_iso_tail[OF f, where tail = "''Z''" and U = Unixtime_utc and ovf = ovf]
    by (simp only: dec_zero_pad no_digit_ahead_simps)
  have "((days_to_year n + days_to_month (1970 + n) k + dom) * 24 + ?hh) * 60 + ?mm
        = ?days * 1440 + (?hh * 60 + ?mm)"
    using d1 d2 by (simp add: algebra_simps)
  then have "(((days_to_year n + days_to_month (1970 + n) k + dom) * 24 + ?hh) * 60 + ?mm) * 60 + ?ss
        = ?days * 86400 + ((?hh * 60 + ?mm) * 60 + ?ss)"
    by (simp add: algebra_simps)
  also have "\<dots> = ?days * 86400 + ?secs" by (simp only: clock_sum)
  also have "\<dots> = unat t" by simp
  finally have total:
    "(((days_to_year n + days_to_month (1970 + n) k + dom) * 24 + ?hh) * 60 + ?mm) * 60 + ?ss
     = unat t" .
  have yr: "nat (1970 + int n) = 1970 + n" by linarith
  have "Unixtime_utc (int (1970 + n)) (int (Suc k)) (int (Suc dom)) (int ?hh) (int ?mm) (int ?ss)
        = word_of_int (int ((((days_to_year n + days_to_month (1970 + n) k + dom) * 24 + ?hh) * 60
                               + ?mm) * 60 + ?ss))"
    by (simp add: Unixtime_utc_def yr)
  also have "\<dots> = t" by (simp only: total) simp
  finally show ?thesis using p by simp
qed

text \<open>
  Claim C9.  Formatting the instant that \<^verbatim>\<open>parseTimestamp\<close> gives for a text, in the ISO
  form with the \<^verbatim>\<open>Z\<close> suffix, and parsing the result gives the same instant again.  This
  holds for every text, the five accepted forms among them, and for every treatment of
  numbers beyond the range of \<^verbatim>\<open>int\<close>.
\<close>

theorem timestamp_round_trip:
  "parseTimestamp ovf Unixtime_utc (datef_utc (parseTimestamp ovf Unixtime_utc x))
   = parseTimestamp ovf Unixtime_utc x"
  by (rule parse_datef_utc)

theorem timestamp_round_trip_witness:
  "datef_utc (parseTimestamp saturate Unixtime_utc ''2023-10-15 14:30:25+10:30'')
     = ''2023-10-15T04:00:25Z''
   \<and> parseTimestamp saturate Unixtime_utc ''2023-10-15T04:00:25Z''
       = parseTimestamp saturate Unixtime_utc ''2023-10-15 14:30:25+10:30''"
proof -
  note d = sample_fields and v = sample_values
  have p: "parseTimestamp saturate Unixtime_utc ''2023-10-15 14:30:25+10:30'' = 1697342425"
    using parse_offset_hm[OF d d(2,5), where sign = "CHR ''+''" and U = Unixtime_utc
            and ovf = saturate]
    by (simp add: text_offset_hm_def date_text_def time_text_def v zone_seconds_def sample_instant)
  have f: "datef_utc 1697342425 = ''2023-10-15T04:00:25Z''"
    by (simp add: datef_utc_def year_of_days.simps month_of_days.simps year_days_def
          month_days_def is_leap_def zero_pad_def show_nat.simps digit_char_eval Let_def)
  from timestamp_round_trip [of saturate "''2023-10-15 14:30:25+10:30''"]
  show ?thesis by (simp add: p f)
qed

end
